theory Spec2Isabelle
  imports Complex_Main "HOL-Library.Sublist"
begin

section \<open>JavaScript values\<close>

text \<open>
  The Call Router of \<^verbatim>\<open>CalledWithFn.ts\<close> compares argument values with \<^verbatim>\<open>===\<close>,
  tests them for truthiness and reads \<^verbatim>\<open>typeof\<close>. Values are the primitive values of the
  language, and references to functions and objects. A finite number is the rational it
  denotes (\<open>+0\<close> and \<open>-0\<close> are the same rational, as they are for \<^verbatim>\<open>===\<close>); \<open>NaN\<close> and the
  infinities are values of their own.
\<close>

type_synonym ref = nat

datatype jsval =
    Undefined
  | Null
  | Boolean bool
  | Number rat
  | NaN
  | PosInfinity
  | NegInfinity
  | BigInt int
  | String string
  | Symbol ref
  | Function ref
  | Object ref

text \<open>\<^verbatim>\<open>!!v\<close>\<close>

fun truthy :: "jsval \<Rightarrow> bool" where
  "truthy Undefined = False"
| "truthy Null = False"
| "truthy (Boolean b) = b"
| "truthy (Number n) = (n \<noteq> 0)"
| "truthy NaN = False"
| "truthy PosInfinity = True"
| "truthy NegInfinity = True"
| "truthy (BigInt n) = (n \<noteq> 0)"
| "truthy (String s) = (s \<noteq> [])"
| "truthy (Symbol r) = True"
| "truthy (Function r) = True"
| "truthy (Object r) = True"

text \<open>\<^verbatim>\<open>typeof v\<close>\<close>

fun js_typeof :: "jsval \<Rightarrow> string" where
  "js_typeof Undefined = ''undefined''"
| "js_typeof Null = ''object''"
| "js_typeof (Boolean b) = ''boolean''"
| "js_typeof (Number n) = ''number''"
| "js_typeof NaN = ''number''"
| "js_typeof PosInfinity = ''number''"
| "js_typeof NegInfinity = ''number''"
| "js_typeof (BigInt n) = ''bigint''"
| "js_typeof (String s) = ''string''"
| "js_typeof (Symbol r) = ''symbol''"
| "js_typeof (Function r) = ''function''"
| "js_typeof (Object r) = ''object''"

text \<open>
  \<^verbatim>\<open>a === b\<close>: the same type and the same value, objects, functions and symbols by
  reference; \<open>NaN\<close> is equal to nothing, itself included.
\<close>

fun strict_eq :: "jsval \<Rightarrow> jsval \<Rightarrow> bool" where
  "strict_eq NaN b = False"
| "strict_eq a NaN = False"
| "strict_eq a b = (a = b)"

text \<open>
  Modelled from the spec: the class \<^verbatim>\<open>Matcher\<close> of \<^verbatim>\<open>Matchers.ts\<close>, which is imported and
  not among the source files. The spec has it as "a predicate object wrapping a
  one-argument boolean function \<^verbatim>\<open>asymmetricMatch(actual)\<close>", immutable once constructed:
  \<open>MatcherInstance\<close> carries that predicate.

  Of any other object the router reads whether it has an \<^verbatim>\<open>asymmetricMatch\<close> property that
  is a function (\<open>Some\<close> of it, as \<^verbatim>\<open>interface JestAsymmetricMatcher\<close> declares it). Of both
  kinds it reads \<^verbatim>\<open>Object.getPrototypeOf(obj)?.[Symbol.toStringTag]\<close>, the second component,
  which is \<open>Undefined\<close> when the prototype is null or has no such property.
  A predicate is a total function to \<open>bool\<close>, the declared type of \<^verbatim>\<open>asymmetricMatch\<close>:
  it neither throws nor changes the router.
\<close>

datatype jsobj =
    MatcherInstance "jsval \<Rightarrow> bool" jsval
  | OtherObject "(jsval \<Rightarrow> bool) option" jsval

fun toStringTag :: "jsobj \<Rightarrow> jsval" where
  "toStringTag (MatcherInstance p t) = t"
| "toStringTag (OtherObject p t) = t"

datatype exn = Error string

text \<open>
  The environment of a router: the objects that references denote, and the bodies of the
  functions a test supplies (a fallback implementation, the implementation given to a
  delegate). A body maps the argument list to the value returned or the exception thrown.
\<close>

record env =
  heap :: "ref \<Rightarrow> jsobj"
  funs :: "ref \<Rightarrow> jsval list \<Rightarrow> exn + jsval"

section \<open>Recognising matchers\<close>

text \<open>\<^verbatim>\<open>matcher instanceof Matcher\<close>\<close>

fun instanceof_Matcher :: "env \<Rightarrow> jsval \<Rightarrow> bool" where
  "instanceof_Matcher E (Object r) =
     (case heap E r of MatcherInstance p t \<Rightarrow> True | OtherObject p t \<Rightarrow> False)"
| "instanceof_Matcher E v = False"

text \<open>\<^verbatim>\<open>'asymmetricMatch' in obj && typeof obj.asymmetricMatch === 'function'\<close>\<close>

fun has_asymmetricMatch :: "env \<Rightarrow> jsval \<Rightarrow> bool" where
  "has_asymmetricMatch E (Object r) =
     (case heap E r of MatcherInstance p t \<Rightarrow> True | OtherObject p t \<Rightarrow> p \<noteq> None)"
| "has_asymmetricMatch E v = False"

text \<open>\<^verbatim>\<open>matcher.asymmetricMatch(actual)\<close>, for a value that has the method.\<close>

fun asymmetricMatch :: "env \<Rightarrow> jsval \<Rightarrow> jsval \<Rightarrow> bool" where
  "asymmetricMatch E (Object r) actual =
     (case heap E r of
        MatcherInstance p t \<Rightarrow> p actual
      | OtherObject p t \<Rightarrow> (case p of Some q \<Rightarrow> q actual | None \<Rightarrow> False))"
| "asymmetricMatch E v actual = False"

definition isJestAsymmetricMatcher :: "env \<Rightarrow> jsval \<Rightarrow> bool" where
  "isJestAsymmetricMatcher E obj \<longleftrightarrow>
     truthy obj \<and> js_typeof obj = ''object'' \<and> has_asymmetricMatch E obj"

text \<open>\<^verbatim>\<open>Object.getPrototypeOf(obj)?.[Symbol.toStringTag]\<close>, for a truthy value of type object.\<close>

fun proto_toStringTag :: "env \<Rightarrow> jsval \<Rightarrow> jsval" where
  "proto_toStringTag E (Object r) = toStringTag (heap E r)"
| "proto_toStringTag E v = Undefined"

fun startsWith :: "jsval \<Rightarrow> string \<Rightarrow> bool" where
  "startsWith (String s) p = prefix p s"
| "startsWith v p = False"

definition isBunBuiltInMatcher :: "env \<Rightarrow> jsval \<Rightarrow> bool" where
  "isBunBuiltInMatcher E obj =
     (if \<not> truthy obj \<or> js_typeof obj \<noteq> ''object'' then False
      else
        let proto_tag = proto_toStringTag E obj;
            tag = (if truthy proto_tag then proto_tag else String [])
        in js_typeof tag = ''string'' \<and> startsWith tag ''Expect'')"

definition unsupported_message :: string where
  "unsupported_message =
     ''calledWith() does not support Bun's built-in matchers like expect.anything() or expect.any(). '' @
     ''Use the library's matchers instead: any(), anyNumber(), anyString(), etc.''"

definition validateCalledWithArgs :: "env \<Rightarrow> jsval list \<Rightarrow> exn + unit" where
  "validateCalledWithArgs E args =
     (let bunMatchers = filter (isBunBuiltInMatcher E) args
      in if length bunMatchers > 0 then Inl (Error unsupported_message) else Inr ())"

section \<open>The mock-function primitive and the router's state\<close>

text \<open>
  \<^verbatim>\<open>jest.fn\<close> of the test runner (\<^verbatim>\<open>bun:test\<close>) makes a mock function, a new object at
  every call: it records the arguments of every call and runs its current implementation,
  if it has one; \<^verbatim>\<open>mockImplementation\<close> sets the implementation and
  \<^verbatim>\<open>getMockImplementation\<close> reads it. A delegate is such a mock whose implementation is a
  function of the test (or none); it is held by reference, since the test configures it
  through the reference \<^verbatim>\<open>calledWith\<close> returned. The functions of a test are pure: they
  return or throw, and do not call back into the router.
\<close>

record mock =
  impl :: "ref option"
  calls :: "jsval list list"

text \<open>
  The implementation of the router's own mock \<^verbatim>\<open>fn\<close> is a function of the test or the
  dispatcher closure \<^verbatim>\<open>(...args) => checkCalledWith(calledWithStack, args, fallbackMockImplementation)\<close>
  that \<^verbatim>\<open>calledWith\<close> installs.
\<close>

datatype fn_implementation = Dispatcher | UserFn ref

record CalledWithStackItem =
  item_args :: "jsval list"
  item_calledWithFn :: ref

text \<open>
  The state that one call of \<^verbatim>\<open>calledWithFn\<close> creates: the closure's variables
  (\<open>fallbackMockImplementation\<close>, \<open>fn\<close>, \<open>calledWithStack\<close>), the state of the mock \<open>fn\<close>
  (its implementation, its recorded calls, and how often \<^verbatim>\<open>fn.mockImplementation\<close> has
  installed a dispatcher), the delegates by reference, and the next reference \<^verbatim>\<open>jest.fn\<close>
  hands out.
\<close>

record router =
  fallbackMockImplementation :: "ref option"
  fn :: ref
  fn_impl :: "fn_implementation option"
  fn_calls :: "jsval list list"
  fn_installs :: nat
  calledWithStack :: "CalledWithStackItem list"
  delegates :: "ref \<Rightarrow> mock"
  next_ref :: ref

text \<open>\<^verbatim>\<open>jest.fn(implementation)\<close> for a delegate: a new mock at the next reference.\<close>

definition jest_fn :: "ref option \<Rightarrow> router \<Rightarrow> ref \<times> router" where
  "jest_fn f s =
     (next_ref s,
      s\<lparr>delegates := (delegates s)(next_ref s := \<lparr>impl = f, calls = []\<rparr>),
        next_ref := Suc (next_ref s)\<rparr>)"

text \<open>Calling a user function, and \<^verbatim>\<open>f && f(...args)\<close>.\<close>

definition call_fun :: "env \<Rightarrow> ref \<Rightarrow> jsval list \<Rightarrow> exn + jsval" where
  "call_fun E f actualArgs = funs E f actualArgs"

fun call_optional :: "env \<Rightarrow> ref option \<Rightarrow> jsval list \<Rightarrow> exn + jsval" where
  "call_optional E None actualArgs = Inr Undefined"
| "call_optional E (Some f) actualArgs = call_fun E f actualArgs"

text \<open>
  Calling the delegate at reference \<open>d\<close>: the call is recorded, and the result is that of
  its implementation, \<open>undefined\<close> when it has none.
\<close>

definition call_delegate :: "env \<Rightarrow> ref \<Rightarrow> jsval list \<Rightarrow> router \<Rightarrow> (exn + jsval) \<times> router" where
  "call_delegate E d actualArgs s =
     (let m = delegates s d
      in (call_optional E (impl m) actualArgs,
          s\<lparr>delegates := (delegates s)(d := m\<lparr>calls := calls m @ [actualArgs]\<rparr>)\<rparr>))"

text \<open>\<^verbatim>\<open>delegate.mockImplementation(f)\<close>, and with it \<^verbatim>\<open>mockReturnValue\<close>, on a delegate.\<close>

definition mockImplementation :: "ref \<Rightarrow> ref option \<Rightarrow> router \<Rightarrow> router" where
  "mockImplementation d f s =
     s\<lparr>delegates := (delegates s)(d := (delegates s d)\<lparr>impl := f\<rparr>)\<rparr>"

section \<open>The Call Router\<close>

text \<open>\<^verbatim>\<open>actualArgs[i]\<close>: \<open>undefined\<close> beyond the end of the array.\<close>

definition arg_at :: "jsval list \<Rightarrow> nat \<Rightarrow> jsval" where
  "arg_at actualArgs i = (if i < length actualArgs then actualArgs ! i else Undefined)"

text \<open>\<^verbatim>\<open>xs.every((x, i) => f(x, i))\<close>, the index counted from \<open>i\<close>.\<close>

primrec every_from :: "nat \<Rightarrow> ('a \<Rightarrow> nat \<Rightarrow> bool) \<Rightarrow> 'a list \<Rightarrow> bool" where
  "every_from i f [] = True"
| "every_from i f (x # xs) = (f x i \<and> every_from (Suc i) f xs)"

definition every :: "('a \<Rightarrow> nat \<Rightarrow> bool) \<Rightarrow> 'a list \<Rightarrow> bool" where
  "every f xs = every_from 0 f xs"

text \<open>The callback of \<^verbatim>\<open>every\<close> in \<^verbatim>\<open>checkCalledWith\<close>.\<close>

definition entry_matches :: "env \<Rightarrow> jsval list \<Rightarrow> jsval \<Rightarrow> nat \<Rightarrow> bool" where
  "entry_matches E actualArgs matcher i =
     (if instanceof_Matcher E matcher then asymmetricMatch E matcher (arg_at actualArgs i)
      else if isJestAsymmetricMatcher E matcher then asymmetricMatch E matcher (arg_at actualArgs i)
      else strict_eq (arg_at actualArgs i) matcher)"

text \<open>The callback of \<^verbatim>\<open>find\<close> in \<^verbatim>\<open>checkCalledWith\<close>.\<close>

definition instance_matches :: "env \<Rightarrow> jsval list \<Rightarrow> CalledWithStackItem \<Rightarrow> bool" where
  "instance_matches E actualArgs inst = every (entry_matches E actualArgs) (item_args inst)"

definition checkCalledWith ::
  "env \<Rightarrow> CalledWithStackItem list \<Rightarrow> jsval list \<Rightarrow> ref option \<Rightarrow> router \<Rightarrow> (exn + jsval) \<times> router"
where
  "checkCalledWith E stack actualArgs fallback s =
     (case find (instance_matches E actualArgs) stack of
        Some calledWithInstance \<Rightarrow> call_delegate E (item_calledWithFn calledWithInstance) actualArgs s
      | None \<Rightarrow> (call_optional E fallback actualArgs, s))"

text \<open>
  \<^verbatim>\<open>calledWithFn({ fallbackMockImplementation })\<close>: \<open>fn\<close> is \<^verbatim>\<open>jest.fn(fallbackMockImplementation)\<close>
  and the stack is empty. The router's mock takes reference \<open>r\<close>.
\<close>

definition calledWithFn :: "ref option \<Rightarrow> ref \<Rightarrow> router" where
  "calledWithFn fallback r =
     \<lparr>fallbackMockImplementation = fallback,
      fn = r,
      fn_impl = map_option UserFn fallback,
      fn_calls = [],
      fn_installs = 0,
      calledWithStack = [],
      delegates = (\<lambda>d. \<lparr>impl = None, calls = []\<rparr>),
      next_ref = Suc r\<rparr>"

text \<open>
  \<^verbatim>\<open>fn.calledWith(...args)\<close>. An exception leaves through \<open>Inl\<close>, with the state at the
  throw; otherwise the delegate's reference is returned.
\<close>

definition calledWith :: "env \<Rightarrow> jsval list \<Rightarrow> router \<Rightarrow> (exn + ref) \<times> router" where
  "calledWith E args s =
     (case validateCalledWithArgs E args of
        Inl e \<Rightarrow> (Inl e, s)
      | Inr u \<Rightarrow>
          let (calledWithFn, s1) = jest_fn (fallbackMockImplementation s) s;
              mockImplementation = fn_impl s1;
              s2 = (if mockImplementation = None
                      \<or> mockImplementation = map_option UserFn (fallbackMockImplementation s1)
                    then s1\<lparr>fn_impl := Some Dispatcher,
                            fn_installs := Suc (fn_installs s1),
                            calledWithStack := []\<rparr>
                    else s1);
              s3 = s2\<lparr>calledWithStack :=
                        \<lparr>item_args = args, item_calledWithFn = calledWithFn\<rparr> # calledWithStack s2\<rparr>
          in (Inr calledWithFn, s3))"

text \<open>
  Calling the router, \<^verbatim>\<open>fn(...actualArgs)\<close>: the mock records the call and runs its
  implementation.
\<close>

definition invoke :: "env \<Rightarrow> jsval list \<Rightarrow> router \<Rightarrow> (exn + jsval) \<times> router" where
  "invoke E actualArgs s =
     (let s1 = s\<lparr>fn_calls := fn_calls s @ [actualArgs]\<rparr>
      in case fn_impl s1 of
           None \<Rightarrow> (Inr Undefined, s1)
         | Some (UserFn f) \<Rightarrow> (call_fun E f actualArgs, s1)
         | Some Dispatcher \<Rightarrow>
             checkCalledWith E (calledWithStack s1) actualArgs (fallbackMockImplementation s1) s1)"

text \<open>
  What a test does with a router: register a pattern, call the router, configure a
  delegate it holds. A run applies the operations in order; an exception thrown by one of
  them is caught by the test, which goes on with the state the operation left.
\<close>

datatype op =
    CalledWith "jsval list"
  | Invoke "jsval list"
  | MockImplementation ref "ref option"

fun step :: "env \<Rightarrow> router \<Rightarrow> op \<Rightarrow> router" where
  "step E s (CalledWith args) = snd (calledWith E args s)"
| "step E s (Invoke actualArgs) = snd (invoke E actualArgs s)"
| "step E s (MockImplementation d f) = mockImplementation d f s"

definition run :: "env \<Rightarrow> op list \<Rightarrow> router \<Rightarrow> router" where
  "run E ops s = foldl (step E) s ops"

section \<open>Notions the properties are stated with\<close>

text \<open>An operation that registers a binding: a \<open>calledWith\<close> whose pattern passes validation.\<close>

fun registers :: "env \<Rightarrow> op \<Rightarrow> bool" where
  "registers E (CalledWith args) = (validateCalledWithArgs E args = Inr ())"
| "registers E (Invoke actualArgs) = False"
| "registers E (MockImplementation d f) = False"

text \<open>The delegates that the registrations of a run return, in order.\<close>

fun returned :: "env \<Rightarrow> router \<Rightarrow> op list \<Rightarrow> ref list" where
  "returned E s [] = []"
| "returned E s (CalledWith args # ops) =
     (case fst (calledWith E args s) of Inr d \<Rightarrow> [d] | Inl e \<Rightarrow> [])
       @ returned E (step E s (CalledWith args)) ops"
| "returned E s (Invoke actualArgs # ops) = returned E (step E s (Invoke actualArgs)) ops"
| "returned E s (MockImplementation d f # ops) = returned E (step E s (MockImplementation d f)) ops"

text \<open>
  What holds of a router however it is driven by the operations above: references are
  handed out in increasing order, so the delegates on the stack are distinct, younger than
  \<open>fn\<close> and older than the next reference; and either the dispatcher is installed, once, or
  \<open>fn\<close> still has the implementation it was created with and nothing is registered.
\<close>

definition router_inv :: "router \<Rightarrow> bool" where
  "router_inv s \<longleftrightarrow>
     fn s < next_ref s \<and>
     (\<forall>b\<in>set (calledWithStack s). fn s < item_calledWithFn b \<and> item_calledWithFn b < next_ref s) \<and>
     distinct (map item_calledWithFn (calledWithStack s)) \<and>
     (if fn_impl s = Some Dispatcher then fn_installs s = 1
      else fn_impl s = map_option UserFn (fallbackMockImplementation s)
           \<and> calledWithStack s = [] \<and> fn_installs s = 0)"

text \<open>
  An environment for concrete runs. Object 0 is a \<open>Matcher\<close> accepting numbers, object 1 a
  foreign object with an \<open>asymmetricMatch\<close> accepting strings, object 2 has the tag of
  Bun's \<^verbatim>\<open>expect.anything()\<close>, every other object is plain. Function 0 throws
  \<^verbatim>\<open>new Error("not mocked")\<close>; function \<open>f > 0\<close> returns the number \<open>f\<close>.
\<close>

definition example_env :: env where
  "example_env =
     \<lparr>heap = (\<lambda>r. if r = 0 then MatcherInstance (\<lambda>v. js_typeof v = ''number'') Undefined
                 else if r = 1 then OtherObject (Some (\<lambda>v. js_typeof v = ''string'')) Undefined
                 else if r = 2 then OtherObject None (String ''ExpectAnything'')
                 else OtherObject None Undefined),
      funs = (\<lambda>f actualArgs. if f = 0 then Inl (Error ''not mocked'') else Inr (Number (of_nat f)))\<rparr>"

section \<open>Basic facts\<close>

lemma every_from_iff: "every_from k f xs \<longleftrightarrow> (\<forall>i<length xs. f (xs ! i) (k + i))"
proof (induction xs arbitrary: k)
  case Nil
  show ?case by simp
next
  case (Cons x xs)
  show ?case
    by (simp add: Cons.IH All_less_Suc2)
qed

lemma every_iff: "every f xs \<longleftrightarrow> (\<forall>i<length xs. f (xs ! i) i)"
  by (simp add: every_def every_from_iff)

lemma validate_ok_iff:
  "validateCalledWithArgs E args = Inr () \<longleftrightarrow> (\<forall>x\<in>set args. \<not> isBunBuiltInMatcher E x)"
  by (auto simp add: validateCalledWithArgs_def filter_empty_conv)

lemma validate_cases:
  "validateCalledWithArgs E args = Inr () \<or> validateCalledWithArgs E args = Inl (Error unsupported_message)"
  by (simp add: validateCalledWithArgs_def)

lemma calledWith_rejected:
  "validateCalledWithArgs E args \<noteq> Inr () \<Longrightarrow> calledWith E args s = (Inl (Error unsupported_message), s)"
  using validate_cases [of E args] by (auto simp add: calledWith_def)

lemma calledWith_accepted:
  assumes "validateCalledWithArgs E args = Inr ()"
  shows "calledWith E args s =
     (Inr (next_ref s),
      (if fn_impl s = None \<or> fn_impl s = map_option UserFn (fallbackMockImplementation s)
       then s\<lparr>fn_impl := Some Dispatcher, fn_installs := Suc (fn_installs s),
              calledWithStack := [\<lparr>item_args = args, item_calledWithFn = next_ref s\<rparr>],
              delegates := (delegates s)(next_ref s := \<lparr>impl = fallbackMockImplementation s, calls = []\<rparr>),
              next_ref := Suc (next_ref s)\<rparr>
       else s\<lparr>calledWithStack := \<lparr>item_args = args, item_calledWithFn = next_ref s\<rparr> # calledWithStack s,
              delegates := (delegates s)(next_ref s := \<lparr>impl = fallbackMockImplementation s, calls = []\<rparr>),
              next_ref := Suc (next_ref s)\<rparr>))"
  using assms by (simp add: calledWith_def jest_fn_def Let_def)

text \<open>
  A registration on a router of the invariant: the dispatcher is in place afterwards and
  the binding is in front of the bindings there were.
\<close>

lemma calledWith_inv_fields:
  assumes ok: "validateCalledWithArgs E args = Inr ()" and inv: "router_inv s"
  shows "fn_impl (snd (calledWith E args s)) = Some Dispatcher"
    and "calledWithStack (snd (calledWith E args s)) =
           \<lparr>item_args = args, item_calledWithFn = next_ref s\<rparr> # calledWithStack s"
    and "fn_installs (snd (calledWith E args s)) = 1"
    and "next_ref (snd (calledWith E args s)) = Suc (next_ref s)"
    and "fn (snd (calledWith E args s)) = fn s"
    and "fallbackMockImplementation (snd (calledWith E args s)) = fallbackMockImplementation s"
    and "fn_calls (snd (calledWith E args s)) = fn_calls s"
    and "delegates (snd (calledWith E args s)) =
           (delegates s)(next_ref s := \<lparr>impl = fallbackMockImplementation s, calls = []\<rparr>)"
    and "fst (calledWith E args s) = Inr (next_ref s)"
proof -
  have "fn_impl (snd (calledWith E args s)) = Some Dispatcher
    \<and> calledWithStack (snd (calledWith E args s)) =
           \<lparr>item_args = args, item_calledWithFn = next_ref s\<rparr> # calledWithStack s
    \<and> fn_installs (snd (calledWith E args s)) = 1"
  proof (cases "fn_impl s = Some Dispatcher")
    case True
    then have g: "\<not> (fn_impl s = None \<or> fn_impl s = map_option UserFn (fallbackMockImplementation s))"
      by (cases "fallbackMockImplementation s") simp_all
    from inv True have "fn_installs s = 1"
      by (simp add: router_inv_def)
    with True g show ?thesis
      by (simp add: calledWith_accepted [OF ok])
  next
    case False
    with inv have g: "fn_impl s = map_option UserFn (fallbackMockImplementation s)"
      and e: "calledWithStack s = []" and z: "fn_installs s = 0"
      by (simp_all add: router_inv_def)
    show ?thesis
      by (simp add: calledWith_accepted [OF ok] g [symmetric] e z)
  qed
  then show "fn_impl (snd (calledWith E args s)) = Some Dispatcher"
    and "calledWithStack (snd (calledWith E args s)) =
           \<lparr>item_args = args, item_calledWithFn = next_ref s\<rparr> # calledWithStack s"
    and "fn_installs (snd (calledWith E args s)) = 1"
    by simp_all
  show "next_ref (snd (calledWith E args s)) = Suc (next_ref s)"
    and "fn (snd (calledWith E args s)) = fn s"
    and "fallbackMockImplementation (snd (calledWith E args s)) = fallbackMockImplementation s"
    and "fn_calls (snd (calledWith E args s)) = fn_calls s"
    and "delegates (snd (calledWith E args s)) =
           (delegates s)(next_ref s := \<lparr>impl = fallbackMockImplementation s, calls = []\<rparr>)"
    and "fst (calledWith E args s) = Inr (next_ref s)"
    by (simp_all add: calledWith_accepted [OF ok])
qed

lemma invoke_frame:
  "calledWithStack (snd (invoke E actualArgs s)) = calledWithStack s"
  "fn_impl (snd (invoke E actualArgs s)) = fn_impl s"
  "fn_installs (snd (invoke E actualArgs s)) = fn_installs s"
  "next_ref (snd (invoke E actualArgs s)) = next_ref s"
  "fn (snd (invoke E actualArgs s)) = fn s"
  "fallbackMockImplementation (snd (invoke E actualArgs s)) = fallbackMockImplementation s"
  "fn_calls (snd (invoke E actualArgs s)) = fn_calls s @ [actualArgs]"
  by (simp_all add: invoke_def checkCalledWith_def call_delegate_def Let_def
        split: option.splits fn_implementation.splits)

lemma mockImplementation_frame:
  "calledWithStack (mockImplementation d f s) = calledWithStack s"
  "fn_impl (mockImplementation d f s) = fn_impl s"
  "fn_installs (mockImplementation d f s) = fn_installs s"
  "next_ref (mockImplementation d f s) = next_ref s"
  "fn (mockImplementation d f s) = fn s"
  "fallbackMockImplementation (mockImplementation d f s) = fallbackMockImplementation s"
  "fn_calls (mockImplementation d f s) = fn_calls s"
  by (simp_all add: mockImplementation_def)

lemma step_idle_frame:
  assumes "\<not> registers E c"
  shows "calledWithStack (step E s c) = calledWithStack s"
    and "fn_impl (step E s c) = fn_impl s"
    and "fn_installs (step E s c) = fn_installs s"
    and "next_ref (step E s c) = next_ref s"
    and "fn (step E s c) = fn s"
    and "fallbackMockImplementation (step E s c) = fallbackMockImplementation s"
  using assms
  by (cases c; simp add: invoke_frame mockImplementation_frame calledWith_rejected)+

lemma run_Nil: "run E [] s = s"
  by (simp add: run_def)

lemma run_Cons: "run E (c # ops) s = run E ops (step E s c)"
  by (simp add: run_def)

lemma run_append: "run E (ops @ ops') s = run E ops' (run E ops s)"
  by (simp add: run_def)

lemma run_snoc: "run E (ops @ [c]) s = step E (run E ops s) c"
  by (simp add: run_def)

lemma run_idle_frame:
  assumes "\<forall>c\<in>set ops. \<not> registers E c"
  shows "calledWithStack (run E ops s) = calledWithStack s
       \<and> fn_impl (run E ops s) = fn_impl s
       \<and> fn_installs (run E ops s) = fn_installs s
       \<and> next_ref (run E ops s) = next_ref s
       \<and> fn (run E ops s) = fn s
       \<and> fallbackMockImplementation (run E ops s) = fallbackMockImplementation s"
  using assms
proof (induction ops arbitrary: s)
  case Nil
  show ?case by (simp add: run_Nil)
next
  case (Cons c ops)
  then show ?case by (simp add: run_Cons step_idle_frame)
qed

lemma inv_init: "router_inv (calledWithFn fallback r)"
  by (simp add: router_inv_def calledWithFn_def)

lemma inv_step: "router_inv s \<Longrightarrow> router_inv (step E s c)"
proof (cases "registers E c")
  case False
  assume "router_inv s"
  then show ?thesis
    by (simp add: router_inv_def step_idle_frame [OF False])
next
  case True
  assume inv: "router_inv s"
  from True obtain args where c: "c = CalledWith args" and ok: "validateCalledWithArgs E args = Inr ()"
    by (cases c) auto
  from inv have "fn s < next_ref s"
    and "\<forall>b\<in>set (calledWithStack s). fn s < item_calledWithFn b \<and> item_calledWithFn b < next_ref s"
    and "distinct (map item_calledWithFn (calledWithStack s))"
    by (simp_all add: router_inv_def)
  then show ?thesis
    unfolding router_inv_def c step.simps calledWith_inv_fields [OF ok inv]
    by (auto simp add: less_Suc_eq)
qed

lemma inv_run: "router_inv s \<Longrightarrow> router_inv (run E ops s)"
  by (induction ops arbitrary: s) (simp_all add: run_Nil run_Cons inv_step)

lemma inv_reachable: "router_inv (run E ops (calledWithFn fallback r))"
  by (simp add: inv_run inv_init)

lemma isBunBuiltInMatcher_iff:
  "isBunBuiltInMatcher E x \<longleftrightarrow>
     (\<exists>r t. x = Object r \<and> toStringTag (heap E r) = String t \<and> prefix ''Expect'' t)"
proof (cases x)
  case (Object r)
  show ?thesis
    by (cases "toStringTag (heap E r)") (auto simp add: Object isBunBuiltInMatcher_def Let_def)
qed (simp_all add: isBunBuiltInMatcher_def)

lemma entry_matches_cases:
  "entry_matches E actualArgs matcher i =
     (case matcher of
        Object r \<Rightarrow>
          (case heap E r of
             MatcherInstance p t \<Rightarrow> p (arg_at actualArgs i)
           | OtherObject q t \<Rightarrow>
               (case q of
                  Some p \<Rightarrow> p (arg_at actualArgs i)
                | None \<Rightarrow> strict_eq (arg_at actualArgs i) (Object r)))
      | v \<Rightarrow> strict_eq (arg_at actualArgs i) v)"
  by (cases matcher)
     (simp_all add: entry_matches_def isJestAsymmetricMatcher_def split: jsobj.splits option.splits)

lemma find_first:
  "\<forall>b\<in>set pre. \<not> P b \<Longrightarrow> P x \<Longrightarrow> find P (pre @ x # post) = Some x"
  by (induction pre) simp_all

lemma find_none: "\<forall>b\<in>set xs. \<not> P b \<Longrightarrow> find P xs = None"
  by (induction xs) simp_all

lemma call_delegate_result:
  "fst (call_delegate E d actualArgs s) = call_optional E (impl (delegates s d)) actualArgs"
  by (simp add: call_delegate_def Let_def)

lemma call_delegate_calls:
  "calls (delegates (snd (call_delegate E d actualArgs s)) e) =
     (if e = d then calls (delegates s d) @ [actualArgs] else calls (delegates s e))"
  by (simp add: call_delegate_def Let_def)

lemma call_delegate_impl:
  "impl (delegates (snd (call_delegate E d actualArgs s)) e) = impl (delegates s e)"
  by (simp add: call_delegate_def Let_def)

lemma invoke_dispatch:
  assumes "fn_impl s = Some Dispatcher"
    and "find (instance_matches E actualArgs) (calledWithStack s) = Some b"
  shows "invoke E actualArgs s =
           call_delegate E (item_calledWithFn b) actualArgs (s\<lparr>fn_calls := fn_calls s @ [actualArgs]\<rparr>)"
  using assms by (simp add: invoke_def checkCalledWith_def Let_def)

lemma invoke_fallthrough:
  assumes "fn_impl s = Some Dispatcher"
    and "find (instance_matches E actualArgs) (calledWithStack s) = None"
  shows "invoke E actualArgs s =
           (call_optional E (fallbackMockImplementation s) actualArgs,
            s\<lparr>fn_calls := fn_calls s @ [actualArgs]\<rparr>)"
  using assms by (simp add: invoke_def checkCalledWith_def Let_def)

lemma invoke_unwired:
  assumes "fn_impl s = map_option UserFn (fallbackMockImplementation s)"
  shows "invoke E actualArgs s =
           (call_optional E (fallbackMockImplementation s) actualArgs,
            s\<lparr>fn_calls := fn_calls s @ [actualArgs]\<rparr>)"
  using assms by (cases "fallbackMockImplementation s") (simp_all add: invoke_def Let_def)

text \<open>The definitions a concrete run unfolds.\<close>

lemmas eval_defs =
  run_def calledWith_def invoke_def checkCalledWith_def calledWithFn_def mockImplementation_def
  validateCalledWithArgs_def isBunBuiltInMatcher_def jest_fn_def instance_matches_def every_def
  entry_matches_def isJestAsymmetricMatcher_def arg_at_def call_delegate_def call_fun_def
  example_env_def Let_def

lemma calledWith_Inr_ok:
  "fst (calledWith E args s) = Inr d \<Longrightarrow> validateCalledWithArgs E args = Inr ()"
  by (rule ccontr) (simp add: calledWith_rejected)

lemma calledWith_const:
  "fallbackMockImplementation (snd (calledWith E args s)) = fallbackMockImplementation s"
  "fn (snd (calledWith E args s)) = fn s"
  "fn_calls (snd (calledWith E args s)) = fn_calls s"
  "next_ref s \<le> next_ref (snd (calledWith E args s))"
  by (cases "validateCalledWithArgs E args = Inr ()";
      simp add: calledWith_accepted calledWith_rejected)+

lemma step_const:
  "fallbackMockImplementation (step E s c) = fallbackMockImplementation s"
  "fn (step E s c) = fn s"
  "next_ref s \<le> next_ref (step E s c)"
  by (cases c; simp add: calledWith_const invoke_frame mockImplementation_frame)+

lemma run_const:
  "fallbackMockImplementation (run E ops s) = fallbackMockImplementation s
   \<and> fn (run E ops s) = fn s \<and> next_ref s \<le> next_ref (run E ops s)"
proof (induction ops arbitrary: s)
  case Nil
  show ?case by (simp add: run_Nil)
next
  case (Cons c ops)
  have "next_ref s \<le> next_ref (step E s c)"
    by (rule step_const)
  with Cons [of "step E s c"] show ?case
    by (simp add: run_Cons step_const(1,2))
qed

text \<open>Once the dispatcher is installed it stays, and the stack only grows at the front.\<close>

lemma step_wired:
  assumes inv: "router_inv s" and w: "fn_impl s = Some Dispatcher"
  shows "fn_impl (step E s c) = Some Dispatcher
       \<and> (\<exists>pre. calledWithStack (step E s c) = pre @ calledWithStack s)"
proof (cases "registers E c")
  case False
  with w show ?thesis
    by (simp add: step_idle_frame)
next
  case True
  then obtain args where c: "c = CalledWith args" and ok: "validateCalledWithArgs E args = Inr ()"
    by (cases c) auto
  show ?thesis
    by (simp add: c calledWith_inv_fields [OF ok inv])
qed

lemma run_wired:
  assumes "router_inv s" and "fn_impl s = Some Dispatcher"
  shows "fn_impl (run E ops s) = Some Dispatcher
       \<and> (\<exists>pre. calledWithStack (run E ops s) = pre @ calledWithStack s)"
  using assms
proof (induction ops arbitrary: s)
  case Nil
  then show ?case by (simp add: run_Nil)
next
  case (Cons c ops)
  from step_wired [OF Cons.prems, of E c]
  obtain pre where w: "fn_impl (step E s c) = Some Dispatcher"
    and p: "calledWithStack (step E s c) = pre @ calledWithStack s"
    by blast
  from Cons.IH [OF inv_step [OF Cons.prems(1)] w] p show ?case
    by (auto simp add: run_Cons)
qed

text \<open>The dispatcher is installed exactly when some registration has succeeded.\<close>

lemma run_installed_iff:
  "fn_impl (run E ops (calledWithFn fallback r)) = Some Dispatcher \<longleftrightarrow> (\<exists>c\<in>set ops. registers E c)"
proof (induction ops rule: rev_induct)
  case Nil
  show ?case
    by (cases fallback) (simp_all add: run_Nil calledWithFn_def)
next
  case (snoc c ops)
  show ?case
  proof (cases "registers E c")
    case False
    with snoc show ?thesis
      by (simp add: run_snoc step_idle_frame)
  next
    case True
    then obtain args where c: "c = CalledWith args" and ok: "validateCalledWithArgs E args = Inr ()"
      by (cases c) auto
    from True show ?thesis
      by (auto simp add: run_snoc c calledWith_inv_fields [OF ok inv_reachable])
  qed
qed

lemma arg_at_append: "i < length xs \<Longrightarrow> arg_at (xs @ ys) i = arg_at xs i"
  by (simp add: arg_at_def nth_append)

lemma instance_matches_append:
  assumes "length (item_args inst) \<le> length xs"
  shows "instance_matches E (xs @ ys) inst = instance_matches E xs inst"
proof -
  have "\<And>i. i < length (item_args inst) \<Longrightarrow>
      entry_matches E (xs @ ys) (item_args inst ! i) i = entry_matches E xs (item_args inst ! i) i"
    using assms by (simp add: entry_matches_def arg_at_append)
  then show ?thesis
    by (simp add: instance_matches_def every_iff)
qed

text \<open>The delegates on the stack are the ones the registrations returned, newest first.\<close>

lemma stack_returned:
  assumes "router_inv s"
  shows "map item_calledWithFn (calledWithStack (run E ops s)) =
           rev (returned E s ops) @ map item_calledWithFn (calledWithStack s)"
  using assms
proof (induction ops arbitrary: s)
  case Nil
  show ?case by (simp add: run_Nil)
next
  case (Cons c ops)
  note ih = Cons.IH [OF inv_step [OF Cons.prems, of E c]]
  show ?case
  proof (cases "registers E c")
    case False
    then have "returned E s (c # ops) = returned E (step E s c) ops"
      by (cases c) (simp_all add: calledWith_rejected)
    with ih False show ?thesis
      by (simp add: run_Cons step_idle_frame)
  next
    case True
    then obtain args where c: "c = CalledWith args" and ok: "validateCalledWithArgs E args = Inr ()"
      by (cases c) auto
    have "returned E s (c # ops) = next_ref s # returned E (step E s c) ops"
      by (simp add: c calledWith_inv_fields [OF ok Cons.prems])
    moreover have "calledWithStack (step E s c) =
        \<lparr>item_args = args, item_calledWithFn = next_ref s\<rparr> # calledWithStack s"
      by (simp add: c calledWith_inv_fields [OF ok Cons.prems])
    ultimately show ?thesis
      using ih by (simp add: run_Cons)
  qed
qed

lemma invoke_mockImplementation_other:
  assumes "\<forall>b. find (instance_matches E actualArgs) (calledWithStack s) = Some b
             \<longrightarrow> item_calledWithFn b \<noteq> d"
  shows "fst (invoke E actualArgs (mockImplementation d f s)) = fst (invoke E actualArgs s)"
proof (cases "fn_impl s")
  case None
  then show ?thesis
    by (simp add: invoke_def mockImplementation_def Let_def)
next
  case (Some i)
  show ?thesis
  proof (cases i)
    case (UserFn g)
    with Some show ?thesis
      by (simp add: invoke_def mockImplementation_def Let_def)
  next
    case Dispatcher
    with Some have w: "fn_impl s = Some Dispatcher"
      and w': "fn_impl (mockImplementation d f s) = Some Dispatcher"
      by (simp_all add: mockImplementation_frame)
    show ?thesis
    proof (cases "find (instance_matches E actualArgs) (calledWithStack s)")
      case None
      then have "find (instance_matches E actualArgs) (calledWithStack (mockImplementation d f s)) = None"
        by (simp add: mockImplementation_frame)
      from invoke_fallthrough [OF w' this] invoke_fallthrough [OF w None] show ?thesis
        by (simp add: mockImplementation_frame)
    next
      case (Some b)
      then have "find (instance_matches E actualArgs) (calledWithStack (mockImplementation d f s)) = Some b"
        by (simp add: mockImplementation_frame)
      from invoke_dispatch [OF w' this] invoke_dispatch [OF w Some] assms Some show ?thesis
        by (simp add: call_delegate_result) (simp add: mockImplementation_def)
    qed
  qed
qed

lemma invoke_mockImplementation_same:
  assumes "fn_impl s = Some Dispatcher"
    and "find (instance_matches E actualArgs) (calledWithStack s) = Some b"
  shows "fst (invoke E actualArgs (mockImplementation (item_calledWithFn b) f s)) =
           call_optional E f actualArgs"
proof -
  let ?s = "mockImplementation (item_calledWithFn b) f s"
  from assms have "fn_impl ?s = Some Dispatcher"
    and "find (instance_matches E actualArgs) (calledWithStack ?s) = Some b"
    by (simp_all add: mockImplementation_frame)
  from invoke_dispatch [OF this] show ?thesis
    by (simp add: call_delegate_result) (simp add: mockImplementation_def)
qed

lemma invoke_delegates:
  "delegates (snd (invoke E actualArgs s)) d = delegates s d
   \<or> (fn_impl s = Some Dispatcher
      \<and> (\<exists>b. find (instance_matches E actualArgs) (calledWithStack s) = Some b
            \<and> item_calledWithFn b = d)
      \<and> delegates (snd (invoke E actualArgs s)) d =
          (delegates s d)\<lparr>calls := calls (delegates s d) @ [actualArgs]\<rparr>)"
proof (cases "fn_impl s")
  case None
  then show ?thesis
    by (simp add: invoke_def Let_def)
next
  case (Some i)
  show ?thesis
  proof (cases i)
    case (UserFn g)
    with Some show ?thesis
      by (simp add: invoke_def Let_def)
  next
    case Dispatcher
    with Some have w: "fn_impl s = Some Dispatcher"
      by simp
    show ?thesis
    proof (cases "find (instance_matches E actualArgs) (calledWithStack s)")
      case None
      from invoke_fallthrough [OF w None] show ?thesis
        by simp
    next
      case (Some b)
      from invoke_dispatch [OF w Some] w Some show ?thesis
        by (simp add: call_delegate_def Let_def)
    qed
  qed
qed

lemma invoke_state:
  "snd (invoke E actualArgs s) =
     s\<lparr>fn_calls := fn_calls s @ [actualArgs], delegates := delegates (snd (invoke E actualArgs s))\<rparr>"
  by (simp add: invoke_def checkCalledWith_def call_delegate_def Let_def
        split: option.splits fn_implementation.splits)

lemma calledWith_inv_state:
  assumes ok: "validateCalledWithArgs E args = Inr ()" and inv: "router_inv s"
  shows "snd (calledWith E args s) =
     s\<lparr>fn_impl := Some Dispatcher, fn_installs := 1,
       calledWithStack := \<lparr>item_args = args, item_calledWithFn = next_ref s\<rparr> # calledWithStack s,
       delegates := (delegates s)(next_ref s := \<lparr>impl = fallbackMockImplementation s, calls = []\<rparr>),
       next_ref := Suc (next_ref s)\<rparr>"
proof (cases "fn_impl s = Some Dispatcher")
  case True
  then have g: "\<not> (fn_impl s = None \<or> fn_impl s = map_option UserFn (fallbackMockImplementation s))"
    by (cases "fallbackMockImplementation s") simp_all
  from inv True have "fn_installs s = 1"
    by (simp add: router_inv_def)
  with True g show ?thesis
    by (cases s) (simp add: calledWith_accepted [OF ok])
next
  case False
  with inv have g: "fn_impl s = map_option UserFn (fallbackMockImplementation s)"
    and e: "calledWithStack s = []" and z: "fn_installs s = 0"
    by (simp_all add: router_inv_def)
  show ?thesis
    by (simp add: calledWith_accepted [OF ok] g [symmetric] e z)
qed

lemma find_skip:
  "\<forall>b\<in>set pre. \<not> P b \<Longrightarrow> \<not> P x \<Longrightarrow> find P (pre @ x # post) = find P post"
  by (induction pre) simp_all

lemma invoke_skip:
  assumes "fn_impl s = Some Dispatcher"
    and "calledWithStack s = pre @ inst # post"
    and "\<forall>b\<in>set pre. \<not> instance_matches E actualArgs b"
    and "\<not> instance_matches E actualArgs inst"
  shows "invoke E actualArgs s =
           checkCalledWith E post actualArgs (fallbackMockImplementation s)
             (s\<lparr>fn_calls := fn_calls s @ [actualArgs]\<rparr>)"
  using assms by (simp add: invoke_def checkCalledWith_def Let_def find_skip)

lemma instance_matches_at:
  assumes "i < length (item_args inst)" and "item_args inst ! i = Object r"
    and "heap E r = OtherObject (Some p) t"
  shows "instance_matches E actualArgs inst \<longleftrightarrow>
           p (arg_at actualArgs i)
           \<and> (\<forall>j<length (item_args inst). j \<noteq> i \<longrightarrow> entry_matches E actualArgs (item_args inst ! j) j)"
proof -
  have e: "entry_matches E actualArgs (item_args inst ! i) i = p (arg_at actualArgs i)"
    using assms by (simp add: entry_matches_def isJestAsymmetricMatcher_def)
  show ?thesis
    unfolding instance_matches_def every_iff using assms(1) e by auto
qed

section \<open>The claims\<close>

text \<open>
  C1: dispatch is newest first, and the first match wins. When \<open>P1\<close> is registered and
  later \<open>P2\<close>, and no pattern is registered after \<open>P2\<close>, a call that \<open>P2\<close> matches goes
  to the delegate of \<open>P2\<close> and returns its result, whether or not \<open>P1\<close> matches the call
  too; the delegate of \<open>P1\<close> is not called. Both bindings are on the stack, the one of
  \<open>P2\<close> in front, also when \<open>P1\<close> and \<open>P2\<close> are the same pattern, and their delegates
  differ.
\<close>

theorem newest_matching_binding_wins:
  assumes r1: "calledWith E P1 (run E ops0 (calledWithFn fallback r)) = (Inr d1, s1)"
    and r2: "calledWith E P2 (run E ops1 s1) = (Inr d2, s2)"
    and idle: "\<forall>c\<in>set ops2. \<not> registers E c"
    and m2: "every (entry_matches E actualArgs) P2"
  shows "fst (invoke E actualArgs (run E ops2 s2)) =
           call_optional E (impl (delegates (run E ops2 s2) d2)) actualArgs
       \<and> calls (delegates (snd (invoke E actualArgs (run E ops2 s2))) d2) =
           calls (delegates (run E ops2 s2) d2) @ [actualArgs]
       \<and> calls (delegates (snd (invoke E actualArgs (run E ops2 s2))) d1) =
           calls (delegates (run E ops2 s2) d1)
       \<and> d1 \<noteq> d2
       \<and> (\<exists>pre post. calledWithStack (run E ops2 s2) =
             \<lparr>item_args = P2, item_calledWithFn = d2\<rparr> # pre
               @ \<lparr>item_args = P1, item_calledWithFn = d1\<rparr> # post)"
proof -
  let ?init = "run E ops0 (calledWithFn fallback r)"
  let ?mid = "run E ops1 s1"
  let ?last = "run E ops2 s2"
  let ?b1 = "\<lparr>item_args = P1, item_calledWithFn = d1\<rparr>"
  let ?b2 = "\<lparr>item_args = P2, item_calledWithFn = d2\<rparr>"
  have inv0: "router_inv ?init"
    by (rule inv_reachable)
  from r1 have ok1: "validateCalledWithArgs E P1 = Inr ()"
    by (auto intro: calledWith_Inr_ok [of E P1 ?init d1])
  from r1 have s1: "s1 = snd (calledWith E P1 ?init)" and d1: "Inr d1 = fst (calledWith E P1 ?init)"
    by simp_all
  from d1 have d1': "d1 = next_ref ?init"
    by (simp add: calledWith_inv_fields [OF ok1 inv0])
  have st1: "calledWithStack s1 = ?b1 # calledWithStack ?init"
    and w1: "fn_impl s1 = Some Dispatcher" and n1: "next_ref s1 = Suc d1"
    by (simp_all add: s1 d1' calledWith_inv_fields [OF ok1 inv0])
  have inv1: "router_inv s1"
    using inv_step [OF inv0, of E "CalledWith P1"] by (simp add: s1)
  have inv1': "router_inv ?mid"
    by (rule inv_run [OF inv1])
  from run_wired [OF inv1 w1, of E ops1] obtain pre
    where w1': "fn_impl ?mid = Some Dispatcher"
      and st1': "calledWithStack ?mid = pre @ ?b1 # calledWithStack ?init"
    by (auto simp add: st1)
  from r2 have ok2: "validateCalledWithArgs E P2 = Inr ()"
    by (auto intro: calledWith_Inr_ok [of E P2 ?mid d2])
  from r2 have s2: "s2 = snd (calledWith E P2 ?mid)" and d2: "Inr d2 = fst (calledWith E P2 ?mid)"
    by simp_all
  from d2 have d2': "d2 = next_ref ?mid"
    by (simp add: calledWith_inv_fields [OF ok2 inv1'])
  have st2: "calledWithStack s2 = ?b2 # pre @ ?b1 # calledWithStack ?init"
    and w2: "fn_impl s2 = Some Dispatcher"
    by (simp_all add: s2 d2' st1' calledWith_inv_fields [OF ok2 inv1'])
  from run_idle_frame [OF idle, of s2]
  have st3: "calledWithStack ?last = ?b2 # pre @ ?b1 # calledWithStack ?init"
    and w3: "fn_impl ?last = Some Dispatcher"
    by (simp_all add: st2 w2)
  have "next_ref s1 \<le> next_ref ?mid"
    using run_const [of E ops1 s1] by simp
  then have ne: "d1 \<noteq> d2"
    by (simp add: n1 d2')
  have "instance_matches E actualArgs ?b2"
    using m2 by (simp add: instance_matches_def)
  then have f: "find (instance_matches E actualArgs) (calledWithStack ?last) = Some ?b2"
    by (simp add: st3)
  have "fst (invoke E actualArgs ?last) = call_optional E (impl (delegates ?last d2)) actualArgs"
    by (simp add: invoke_dispatch [OF w3 f] call_delegate_result)
  moreover have "calls (delegates (snd (invoke E actualArgs ?last)) d2) =
      calls (delegates ?last d2) @ [actualArgs]"
    by (simp add: invoke_dispatch [OF w3 f] call_delegate_calls)
  moreover have "calls (delegates (snd (invoke E actualArgs ?last)) d1) = calls (delegates ?last d1)"
    using ne by (simp add: invoke_dispatch [OF w3 f] call_delegate_calls)
  moreover have "\<exists>pre post. calledWithStack ?last = ?b2 # pre @ ?b1 # post"
    using st3 by blast
  ultimately show ?thesis
    using ne by blast
qed

theorem newest_matching_binding_wins_witness:
  "calledWith example_env [Number 1] (run example_env [] (calledWithFn None 10))
     = (Inr 11, snd (calledWith example_env [Number 1] (calledWithFn None 10)))
   \<and> calledWith example_env [Number 1]
        (run example_env [MockImplementation 11 (Some 3)]
           (snd (calledWith example_env [Number 1] (calledWithFn None 10))))
     = (Inr 12, run example_env [CalledWith [Number 1], MockImplementation 11 (Some 3), CalledWith [Number 1]]
                  (calledWithFn None 10))
   \<and> \<not> registers example_env (MockImplementation 12 (Some 4))
   \<and> every (entry_matches example_env [Number 1]) [Number 1]
   \<and> fst (invoke example_env [Number 1]
        (run example_env
           [CalledWith [Number 1], MockImplementation 11 (Some 3), CalledWith [Number 1],
            MockImplementation 12 (Some 4)]
           (calledWithFn None 10))) = Inr (Number 4)"
proof -
  let ?init = "calledWithFn None 10"
  let ?fst = "snd (calledWith example_env [Number 1] ?init)"
  let ?snd = "run example_env [CalledWith [Number 1], MockImplementation 11 (Some 3), CalledWith [Number 1]] ?init"
  let ?last = "run example_env
           [CalledWith [Number 1], MockImplementation 11 (Some 3), CalledWith [Number 1],
            MockImplementation 12 (Some 4)] ?init"
  have h1: "calledWith example_env [Number 1] (run example_env [] ?init) = (Inr 11, ?fst)"
    by (simp add: eval_defs)
  have h2: "calledWith example_env [Number 1] (run example_env [MockImplementation 11 (Some 3)] ?fst)
      = (Inr 12, ?snd)"
    by (simp add: eval_defs)
  have h3: "\<forall>c\<in>set [MockImplementation 12 (Some 4)]. \<not> registers example_env c"
    by simp
  have h4: "every (entry_matches example_env [Number 1]) [Number 1]"
    by (simp add: eval_defs)
  have e: "run example_env [MockImplementation 12 (Some 4)] ?snd = ?last"
    by (simp add: run_def)
  have i: "impl (delegates ?last 12) = Some 4"
    by (simp add: eval_defs)
  have c: "call_optional example_env (Some 4) [Number 1] = Inr (Number 4)"
    by (simp add: call_fun_def example_env_def)
  from newest_matching_binding_wins [OF h1 h2 h3 h4]
  have "fst (invoke example_env [Number 1] ?last) =
      call_optional example_env (impl (delegates ?last 12)) [Number 1]"
    unfolding e by blast
  then have "fst (invoke example_env [Number 1] ?last) = Inr (Number 4)"
    by (simp only: i c)
  with h1 h2 h4 show ?thesis
    by simp
qed

text \<open>
  C2: a binding matches exactly when every entry of its pattern matches the actual
  argument at the same position (\<open>undefined\<close> where the call has no such position): an
  entry that is a \<open>Matcher\<close>, or another object with an \<open>asymmetricMatch\<close> function, by
  its predicate, every other entry, a literal, by strict equality. When the dispatcher is
  installed, the delegate of the first binding of the stack that matches is called with
  the actual arguments and its result is the router's result. The pattern \<open>[5, "x"]\<close>
  matches the call \<open>(5, "x")\<close> and not the call \<open>(5, "y")\<close>.
\<close>

theorem checkCalledWith_first_full_match:
  "(instance_matches E actualArgs inst \<longleftrightarrow>
      (\<forall>i<length (item_args inst).
         case item_args inst ! i of
           Object r \<Rightarrow>
             (case heap E r of
                MatcherInstance p t \<Rightarrow> p (arg_at actualArgs i)
              | OtherObject q t \<Rightarrow>
                  (case q of
                     Some p \<Rightarrow> p (arg_at actualArgs i)
                   | None \<Rightarrow> strict_eq (arg_at actualArgs i) (Object r)))
         | v \<Rightarrow> strict_eq (arg_at actualArgs i) v))
   \<and> (fn_impl s = Some Dispatcher
        \<and> calledWithStack s = pre @ inst # post
        \<and> (\<forall>b\<in>set pre. \<not> instance_matches E actualArgs b)
        \<and> instance_matches E actualArgs inst \<longrightarrow>
          fst (invoke E actualArgs s) =
            call_optional E (impl (delegates s (item_calledWithFn inst))) actualArgs
        \<and> calls (delegates (snd (invoke E actualArgs s)) (item_calledWithFn inst)) =
            calls (delegates s (item_calledWithFn inst)) @ [actualArgs])
   \<and> instance_matches E [Number 5, String ''x'']
        \<lparr>item_args = [Number 5, String ''x''], item_calledWithFn = d\<rparr>
   \<and> \<not> instance_matches E [Number 5, String ''y'']
        \<lparr>item_args = [Number 5, String ''x''], item_calledWithFn = d\<rparr>"
proof (intro conjI impI)
  show "instance_matches E actualArgs inst \<longleftrightarrow>
      (\<forall>i<length (item_args inst).
         case item_args inst ! i of
           Object r \<Rightarrow>
             (case heap E r of
                MatcherInstance p t \<Rightarrow> p (arg_at actualArgs i)
              | OtherObject q t \<Rightarrow>
                  (case q of
                     Some p \<Rightarrow> p (arg_at actualArgs i)
                   | None \<Rightarrow> strict_eq (arg_at actualArgs i) (Object r)))
         | v \<Rightarrow> strict_eq (arg_at actualArgs i) v)"
    unfolding instance_matches_def every_iff entry_matches_cases ..
next
  assume a: "fn_impl s = Some Dispatcher
        \<and> calledWithStack s = pre @ inst # post
        \<and> (\<forall>b\<in>set pre. \<not> instance_matches E actualArgs b)
        \<and> instance_matches E actualArgs inst"
  then have f: "find (instance_matches E actualArgs) (calledWithStack s) = Some inst"
    by (simp add: find_first)
  from a have w: "fn_impl s = Some Dispatcher" by simp
  show "fst (invoke E actualArgs s) =
            call_optional E (impl (delegates s (item_calledWithFn inst))) actualArgs"
    by (simp add: invoke_dispatch [OF w f] call_delegate_result)
  show "calls (delegates (snd (invoke E actualArgs s)) (item_calledWithFn inst)) =
            calls (delegates s (item_calledWithFn inst)) @ [actualArgs]"
    by (simp add: invoke_dispatch [OF w f] call_delegate_calls)
next
  show "instance_matches E [Number 5, String ''x'']
        \<lparr>item_args = [Number 5, String ''x''], item_calledWithFn = d\<rparr>"
    by (simp add: instance_matches_def every_def entry_matches_def isJestAsymmetricMatcher_def arg_at_def)
next
  show "\<not> instance_matches E [Number 5, String ''y'']
        \<lparr>item_args = [Number 5, String ''x''], item_calledWithFn = d\<rparr>"
    by (simp add: instance_matches_def every_def entry_matches_def isJestAsymmetricMatcher_def arg_at_def)
qed

theorem checkCalledWith_first_full_match_witness:
  "fn_impl (run example_env [CalledWith [Number 5, String ''x''], MockImplementation 11 (Some 7)]
              (calledWithFn None 10)) = Some Dispatcher
   \<and> calledWithStack (run example_env [CalledWith [Number 5, String ''x''], MockImplementation 11 (Some 7)]
              (calledWithFn None 10)) = [] @ \<lparr>item_args = [Number 5, String ''x''], item_calledWithFn = 11\<rparr> # []
   \<and> instance_matches example_env [Number 5, String ''x'']
        \<lparr>item_args = [Number 5, String ''x''], item_calledWithFn = 11\<rparr>
   \<and> fst (invoke example_env [Number 5, String ''x'']
        (run example_env [CalledWith [Number 5, String ''x''], MockImplementation 11 (Some 7)]
              (calledWithFn None 10))) = Inr (Number 7)"
proof -
  let ?s = "run example_env [CalledWith [Number 5, String ''x''], MockImplementation 11 (Some 7)]
              (calledWithFn None 10)"
  let ?b = "\<lparr>item_args = [Number 5, String ''x''], item_calledWithFn = 11\<rparr>"
  have w: "fn_impl ?s = Some Dispatcher"
    by (simp add: eval_defs)
  have st: "calledWithStack ?s = [] @ ?b # []"
    by (simp add: eval_defs)
  have m: "instance_matches example_env [Number 5, String ''x''] ?b"
    by (simp add: eval_defs)
  have i: "impl (delegates ?s 11) = Some 7"
    by (simp add: eval_defs)
  from checkCalledWith_first_full_match [of example_env "[Number 5, String ''x'']" ?b ?s "[]" "[]" 11]
    w st m
  have "fst (invoke example_env [Number 5, String ''x''] ?s) =
          call_optional example_env (impl (delegates ?s (item_calledWithFn ?b))) [Number 5, String ''x'']"
    by simp
  moreover have "call_optional example_env (Some 7) [Number 5, String ''x''] = Inr (Number 7)"
    by (simp add: call_fun_def example_env_def)
  ultimately have "fst (invoke example_env [Number 5, String ''x''] ?s) = Inr (Number 7)"
    by (simp add: i)
  with w st m show ?thesis
    by simp
qed

text \<open>
  C3: a pattern with an entry that is recognised as a built-in matcher of Bun makes
  \<open>calledWith\<close> throw, and the router is as it was: no binding is pushed, no delegate is
  made, and the implementation of \<open>fn\<close> is neither installed nor replaced.
\<close>

theorem calledWith_rejects_foreign_matcher:
  assumes "\<exists>x\<in>set args. isBunBuiltInMatcher E x"
  shows "fst (calledWith E args s) = Inl (Error unsupported_message)
       \<and> snd (calledWith E args s) = s
       \<and> length (calledWithStack (snd (calledWith E args s))) = length (calledWithStack s)
       \<and> fn_impl (snd (calledWith E args s)) = fn_impl s
       \<and> fn_installs (snd (calledWith E args s)) = fn_installs s"
proof -
  from assms have "validateCalledWithArgs E args \<noteq> Inr ()"
    by (simp add: validate_ok_iff)
  then show ?thesis
    by (simp add: calledWith_rejected)
qed

theorem calledWith_rejects_foreign_matcher_witness:
  "(\<exists>x\<in>set [Number 1, Object 2]. isBunBuiltInMatcher example_env x)
   \<and> fst (calledWith example_env [Number 1, Object 2] (calledWithFn None 0)) = Inl (Error unsupported_message)
   \<and> snd (calledWith example_env [Number 1, Object 2] (calledWithFn None 0)) = calledWithFn None 0
   \<and> calledWithStack (snd (calledWith example_env [Number 1, Object 2] (calledWithFn None 0))) = []"
proof -
  have h: "\<exists>x\<in>set [Number 1, Object 2]. isBunBuiltInMatcher example_env x"
    by (simp add: isBunBuiltInMatcher_def example_env_def Let_def)
  have e: "calledWithStack (calledWithFn None 0) = []"
    by (simp add: calledWithFn_def)
  show ?thesis
    using h calledWith_rejects_foreign_matcher [OF h, of "calledWithFn None 0"] e by simp
qed

text \<open>
  C4: when no binding of the stack matches a call, and so when nothing is registered, the
  router returns what the fallback implementation does with the actual arguments, its
  exception included (\<open>Inl\<close>), and \<open>undefined\<close> when the router was made without a
  fallback. The call is recorded on \<open>fn\<close> and nothing else changes.
\<close>

theorem unmatched_call_falls_through:
  assumes "\<forall>b\<in>set (calledWithStack (run E ops (calledWithFn fallback r))).
             \<not> instance_matches E actualArgs b"
  shows "invoke E actualArgs (run E ops (calledWithFn fallback r)) =
           ((case fallback of None \<Rightarrow> Inr Undefined | Some f \<Rightarrow> funs E f actualArgs),
            (run E ops (calledWithFn fallback r))
              \<lparr>fn_calls := fn_calls (run E ops (calledWithFn fallback r)) @ [actualArgs]\<rparr>)"
proof -
  let ?s = "run E ops (calledWithFn fallback r)"
  have fb: "fallbackMockImplementation ?s = fallback"
    using run_const [of E ops "calledWithFn fallback r"] by (simp add: calledWithFn_def)
  have c: "call_optional E fallback actualArgs =
      (case fallback of None \<Rightarrow> Inr Undefined | Some f \<Rightarrow> funs E f actualArgs)"
    by (cases fallback) (simp_all add: call_fun_def)
  show ?thesis
  proof (cases "fn_impl ?s = Some Dispatcher")
    case True
    from assms have "find (instance_matches E actualArgs) (calledWithStack ?s) = None"
      by (rule find_none)
    from invoke_fallthrough [OF True this] show ?thesis
      by (simp add: fb c)
  next
    case False
    with inv_reachable [of E ops fallback r]
    have "fn_impl ?s = map_option UserFn (fallbackMockImplementation ?s)"
      by (simp add: router_inv_def)
    from invoke_unwired [OF this] show ?thesis
      by (simp add: fb c)
  qed
qed

theorem unmatched_call_falls_through_witness:
  "calledWithStack (run example_env [] (calledWithFn (Some 0) 10)) = []
   \<and> fst (invoke example_env [Number 1] (run example_env [] (calledWithFn (Some 0) 10)))
       = Inl (Error ''not mocked'')
   \<and> calledWithStack (run example_env [CalledWith [Number 5, String ''x'']] (calledWithFn None 10))
       = [\<lparr>item_args = [Number 5, String ''x''], item_calledWithFn = 11\<rparr>]
   \<and> \<not> instance_matches example_env [Number 5, String ''y'']
         \<lparr>item_args = [Number 5, String ''x''], item_calledWithFn = 11\<rparr>
   \<and> fst (invoke example_env [Number 5, String ''y'']
          (run example_env [CalledWith [Number 5, String ''x'']] (calledWithFn None 10)))
       = Inr Undefined"
proof -
  have h1: "\<forall>b\<in>set (calledWithStack (run example_env [] (calledWithFn (Some 0) 10))).
      \<not> instance_matches example_env [Number 1] b"
    by (simp add: run_def calledWithFn_def)
  have h2: "\<forall>b\<in>set (calledWithStack (run example_env [CalledWith [Number 5, String ''x'']] (calledWithFn None 10))).
      \<not> instance_matches example_env [Number 5, String ''y''] b"
    by (simp add: eval_defs)
  have f: "funs example_env 0 [Number 1] = Inl (Error ''not mocked'')"
    by (simp add: example_env_def)
  have e1: "calledWithStack (run example_env [] (calledWithFn (Some 0) 10)) = []"
    by (simp add: run_def calledWithFn_def)
  have e2: "calledWithStack (run example_env [CalledWith [Number 5, String ''x'']] (calledWithFn None 10))
       = [\<lparr>item_args = [Number 5, String ''x''], item_calledWithFn = 11\<rparr>]"
    by (simp add: eval_defs)
  have n: "\<not> instance_matches example_env [Number 5, String ''y'']
         \<lparr>item_args = [Number 5, String ''x''], item_calledWithFn = 11\<rparr>"
    by (simp add: eval_defs)
  show ?thesis
    using e1 e2 n unmatched_call_falls_through [OF h1] unmatched_call_falls_through [OF h2] f
    by simp
qed

text \<open>
  C5: over any run of a router from its creation, the dispatcher is installed by the
  first registration that succeeds and by no other: the number of installations is 1 once
  a registration has succeeded and 0 before. A registration that finds one already made
  leaves the implementation of \<open>fn\<close> alone and only puts its binding in front of the
  stack.
\<close>

theorem dispatcher_installed_once:
  "fn_installs (run E ops (calledWithFn fallback r)) = (if \<exists>c\<in>set ops. registers E c then 1 else 0)
   \<and> fn_impl (run E ops (calledWithFn fallback r)) =
       (if \<exists>c\<in>set ops. registers E c then Some Dispatcher else map_option UserFn fallback)
   \<and> (validateCalledWithArgs E args = Inr () \<longrightarrow>
        fn_impl (snd (calledWith E args (run E ops (calledWithFn fallback r)))) = Some Dispatcher
      \<and> fn_installs (snd (calledWith E args (run E ops (calledWithFn fallback r)))) = 1
      \<and> calledWithStack (snd (calledWith E args (run E ops (calledWithFn fallback r)))) =
          \<lparr>item_args = args, item_calledWithFn = next_ref (run E ops (calledWithFn fallback r))\<rparr>
            # calledWithStack (run E ops (calledWithFn fallback r)))
   \<and> ((\<exists>c\<in>set ops. registers E c) \<longrightarrow>
        fn_impl (snd (calledWith E args (run E ops (calledWithFn fallback r)))) =
          fn_impl (run E ops (calledWithFn fallback r))
      \<and> fn_installs (snd (calledWith E args (run E ops (calledWithFn fallback r)))) =
          fn_installs (run E ops (calledWithFn fallback r)))"
proof -
  let ?s = "run E ops (calledWithFn fallback r)"
  have inv: "router_inv ?s"
    by (rule inv_reachable)
  have fb: "fallbackMockImplementation ?s = fallback"
    using run_const [of E ops "calledWithFn fallback r"] by (simp add: calledWithFn_def)
  have w: "fn_impl ?s = Some Dispatcher \<longleftrightarrow> (\<exists>c\<in>set ops. registers E c)"
    by (rule run_installed_iff)
  have a: "fn_installs ?s = (if \<exists>c\<in>set ops. registers E c then 1 else 0)"
    using inv w by (simp add: router_inv_def split: if_splits)
  have b: "fn_impl ?s = (if \<exists>c\<in>set ops. registers E c then Some Dispatcher else map_option UserFn fallback)"
    using inv w fb by (simp add: router_inv_def split: if_splits)
  have c: "validateCalledWithArgs E args = Inr () \<longrightarrow>
        fn_impl (snd (calledWith E args ?s)) = Some Dispatcher
      \<and> fn_installs (snd (calledWith E args ?s)) = 1
      \<and> calledWithStack (snd (calledWith E args ?s)) =
          \<lparr>item_args = args, item_calledWithFn = next_ref ?s\<rparr> # calledWithStack ?s"
    by (simp add: calledWith_inv_fields [OF _ inv])
  have d: "(\<exists>c\<in>set ops. registers E c) \<longrightarrow>
        fn_impl (snd (calledWith E args ?s)) = fn_impl ?s
      \<and> fn_installs (snd (calledWith E args ?s)) = fn_installs ?s"
  proof (cases "validateCalledWithArgs E args = Inr ()")
    case True
    show ?thesis
      using a b by (simp add: calledWith_inv_fields [OF True inv])
  next
    case False
    then show ?thesis
      by (simp add: calledWith_rejected)
  qed
  from a b c d show ?thesis
    by blast
qed

theorem dispatcher_installed_once_witness:
  "fn_installs (run example_env [Invoke [], CalledWith [Object 2]] (calledWithFn (Some 0) 10)) = 0
   \<and> fn_impl (run example_env [Invoke [], CalledWith [Object 2]] (calledWithFn (Some 0) 10)) = Some (UserFn 0)
   \<and> fn_installs (run example_env [CalledWith [Number 1], CalledWith [], Invoke [Number 1]]
        (calledWithFn (Some 0) 10)) = 1
   \<and> validateCalledWithArgs example_env [Number 2] = Inr ()
   \<and> (\<exists>c\<in>set [CalledWith [Number 1], CalledWith [], Invoke [Number 1]]. registers example_env c)
   \<and> fn_installs (snd (calledWith example_env [Number 2]
        (run example_env [CalledWith [Number 1], CalledWith [], Invoke [Number 1]]
           (calledWithFn (Some 0) 10)))) = 1"
proof -
  have n: "\<not> (\<exists>c\<in>set [Invoke [], CalledWith [Object 2]]. registers example_env c)"
    by (simp add: validateCalledWithArgs_def isBunBuiltInMatcher_def example_env_def Let_def)
  have y: "\<exists>c\<in>set [CalledWith [Number 1], CalledWith [], Invoke [Number 1]]. registers example_env c"
    by (simp add: validateCalledWithArgs_def isBunBuiltInMatcher_def)
  have v: "validateCalledWithArgs example_env [Number 2] = Inr ()"
    by (simp add: validateCalledWithArgs_def isBunBuiltInMatcher_def)
  from n dispatcher_installed_once [of example_env "[Invoke [], CalledWith [Object 2]]" "Some 0" 10 "[]"]
  have a: "fn_installs (run example_env [Invoke [], CalledWith [Object 2]] (calledWithFn (Some 0) 10)) = 0
    \<and> fn_impl (run example_env [Invoke [], CalledWith [Object 2]] (calledWithFn (Some 0) 10)) = Some (UserFn 0)"
    by simp
  from y v dispatcher_installed_once
    [of example_env "[CalledWith [Number 1], CalledWith [], Invoke [Number 1]]" "Some 0" 10 "[Number 2]"]
  have b: "fn_installs (run example_env [CalledWith [Number 1], CalledWith [], Invoke [Number 1]]
        (calledWithFn (Some 0) 10)) = 1
   \<and> fn_installs (snd (calledWith example_env [Number 2]
        (run example_env [CalledWith [Number 1], CalledWith [], Invoke [Number 1]]
           (calledWithFn (Some 0) 10)))) = 1"
    by simp
  from a b y v show ?thesis
    by blast
qed

text \<open>
  C6: \<open>calledWith\<close> rejects a pattern exactly when one of its entries is an object whose
  prototype has a \<open>Symbol.toStringTag\<close> that is a string starting with \<open>Expect\<close>. Any
  other pattern is accepted, so an object that is no \<open>Matcher\<close> but has an
  \<open>asymmetricMatch\<close> function passes. At dispatch such an entry is matched by calling
  that function on the actual argument, not by strict equality: a binding with the object
  at position \<open>i\<close> matches exactly when the function accepts argument \<open>i\<close> and the other
  entries match; when it is the first binding to match, the call of the router goes to its
  delegate; when the function refuses the argument, the call goes on to the bindings
  behind it and the fallback. So it is for a router that registers the pattern consisting
  of the object alone.
\<close>

theorem foreign_asymmetricMatch_objects_pass:
  "(fst (calledWith E args s) = Inl (Error unsupported_message) \<longleftrightarrow>
      (\<exists>x\<in>set args. \<exists>r t. x = Object r \<and> toStringTag (heap E r) = String t \<and> prefix ''Expect'' t))
   \<and> (\<not> (\<exists>x\<in>set args. \<exists>r t. x = Object r \<and> toStringTag (heap E r) = String t \<and> prefix ''Expect'' t)
        \<longrightarrow> fst (calledWith E args s) = Inr (next_ref s)
          \<and> (\<exists>rest. calledWithStack (snd (calledWith E args s)) =
                \<lparr>item_args = args, item_calledWithFn = next_ref s\<rparr> # rest))
   \<and> (heap E r = OtherObject (Some p) t \<longrightarrow>
        \<not> instanceof_Matcher E (Object r)
      \<and> isJestAsymmetricMatcher E (Object r)
      \<and> entry_matches E actualArgs (Object r) i = p (arg_at actualArgs i))
   \<and> (heap E r = OtherObject (Some p) t
        \<and> fn_impl s = Some Dispatcher
        \<and> calledWithStack s = pre @ inst # post
        \<and> (\<forall>b\<in>set pre. \<not> instance_matches E actualArgs b)
        \<and> i < length (item_args inst)
        \<and> item_args inst ! i = Object r \<longrightarrow>
          (instance_matches E actualArgs inst \<longleftrightarrow>
             p (arg_at actualArgs i)
             \<and> (\<forall>j<length (item_args inst).
                   j \<noteq> i \<longrightarrow> entry_matches E actualArgs (item_args inst ! j) j))
        \<and> (instance_matches E actualArgs inst \<longrightarrow>
              fst (invoke E actualArgs s) =
                call_optional E (impl (delegates s (item_calledWithFn inst))) actualArgs
            \<and> calls (delegates (snd (invoke E actualArgs s)) (item_calledWithFn inst)) =
                calls (delegates s (item_calledWithFn inst)) @ [actualArgs])
        \<and> (\<not> p (arg_at actualArgs i) \<longrightarrow>
              invoke E actualArgs s =
                checkCalledWith E post actualArgs (fallbackMockImplementation s)
                  (s\<lparr>fn_calls := fn_calls s @ [actualArgs]\<rparr>)))
   \<and> (heap E r = OtherObject (Some p) t
        \<and> \<not> (\<exists>u. t = String u \<and> prefix ''Expect'' u)
        \<and> (\<forall>c\<in>set ops'. \<not> registers E c) \<longrightarrow>
          (let s0 = run E ops (calledWithFn fallback k);
               d = next_ref s0;
               s1 = run E ops' (snd (calledWith E [Object r] s0))
           in fst (calledWith E [Object r] s0) = Inr d
            \<and> calledWithStack s1 =
                \<lparr>item_args = [Object r], item_calledWithFn = d\<rparr> # calledWithStack s0
            \<and> (p (arg_at actualArgs 0) \<longrightarrow>
                  fst (invoke E actualArgs s1) = call_optional E (impl (delegates s1 d)) actualArgs
                \<and> calls (delegates (snd (invoke E actualArgs s1)) d) =
                    calls (delegates s1 d) @ [actualArgs])
            \<and> (\<not> p (arg_at actualArgs 0) \<longrightarrow>
                  invoke E actualArgs s1 =
                    checkCalledWith E (calledWithStack s0) actualArgs fallback
                      (s1\<lparr>fn_calls := fn_calls s1 @ [actualArgs]\<rparr>))))"
proof -
  let ?bun = "\<exists>x\<in>set args. \<exists>r t. x = Object r \<and> toStringTag (heap E r) = String t \<and> prefix ''Expect'' t"
  have v: "validateCalledWithArgs E args = Inr () \<longleftrightarrow> \<not> ?bun"
    unfolding validate_ok_iff isBunBuiltInMatcher_iff by blast
  have a: "fst (calledWith E args s) = Inl (Error unsupported_message) \<longleftrightarrow> ?bun"
  proof (cases "validateCalledWithArgs E args = Inr ()")
    case True
    with v show ?thesis
      by (simp add: calledWith_accepted)
  next
    case False
    with v show ?thesis
      by (simp add: calledWith_rejected)
  qed
  have b: "\<not> ?bun \<longrightarrow> fst (calledWith E args s) = Inr (next_ref s)
          \<and> (\<exists>rest. calledWithStack (snd (calledWith E args s)) =
                \<lparr>item_args = args, item_calledWithFn = next_ref s\<rparr> # rest)"
  proof
    assume "\<not> ?bun"
    with v have ok: "validateCalledWithArgs E args = Inr ()"
      by simp
    show "fst (calledWith E args s) = Inr (next_ref s)
          \<and> (\<exists>rest. calledWithStack (snd (calledWith E args s)) =
                \<lparr>item_args = args, item_calledWithFn = next_ref s\<rparr> # rest)"
      by (simp add: calledWith_accepted [OF ok])
  qed
  have c: "heap E r = OtherObject (Some p) t \<longrightarrow>
        \<not> instanceof_Matcher E (Object r)
      \<and> isJestAsymmetricMatcher E (Object r)
      \<and> entry_matches E actualArgs (Object r) i = p (arg_at actualArgs i)"
    by (simp add: entry_matches_def isJestAsymmetricMatcher_def)
  have d: "heap E r = OtherObject (Some p) t
        \<and> fn_impl s = Some Dispatcher
        \<and> calledWithStack s = pre @ inst # post
        \<and> (\<forall>b\<in>set pre. \<not> instance_matches E actualArgs b)
        \<and> i < length (item_args inst)
        \<and> item_args inst ! i = Object r \<longrightarrow>
          (instance_matches E actualArgs inst \<longleftrightarrow>
             p (arg_at actualArgs i)
             \<and> (\<forall>j<length (item_args inst).
                   j \<noteq> i \<longrightarrow> entry_matches E actualArgs (item_args inst ! j) j))
        \<and> (instance_matches E actualArgs inst \<longrightarrow>
              fst (invoke E actualArgs s) =
                call_optional E (impl (delegates s (item_calledWithFn inst))) actualArgs
            \<and> calls (delegates (snd (invoke E actualArgs s)) (item_calledWithFn inst)) =
                calls (delegates s (item_calledWithFn inst)) @ [actualArgs])
        \<and> (\<not> p (arg_at actualArgs i) \<longrightarrow>
              invoke E actualArgs s =
                checkCalledWith E post actualArgs (fallbackMockImplementation s)
                  (s\<lparr>fn_calls := fn_calls s @ [actualArgs]\<rparr>))"
  proof (intro impI)
    assume h: "heap E r = OtherObject (Some p) t
        \<and> fn_impl s = Some Dispatcher
        \<and> calledWithStack s = pre @ inst # post
        \<and> (\<forall>b\<in>set pre. \<not> instance_matches E actualArgs b)
        \<and> i < length (item_args inst)
        \<and> item_args inst ! i = Object r"
    then have w: "fn_impl s = Some Dispatcher"
      and st: "calledWithStack s = pre @ inst # post"
      and np: "\<forall>b\<in>set pre. \<not> instance_matches E actualArgs b"
      by simp_all
    from h have m: "instance_matches E actualArgs inst \<longleftrightarrow>
             p (arg_at actualArgs i)
             \<and> (\<forall>j<length (item_args inst).
                   j \<noteq> i \<longrightarrow> entry_matches E actualArgs (item_args inst ! j) j)"
      using instance_matches_at [of i inst r E p t actualArgs] by simp
    have win: "instance_matches E actualArgs inst \<longrightarrow>
              fst (invoke E actualArgs s) =
                call_optional E (impl (delegates s (item_calledWithFn inst))) actualArgs
            \<and> calls (delegates (snd (invoke E actualArgs s)) (item_calledWithFn inst)) =
                calls (delegates s (item_calledWithFn inst)) @ [actualArgs]"
    proof
      assume "instance_matches E actualArgs inst"
      with np have f: "find (instance_matches E actualArgs) (calledWithStack s) = Some inst"
        by (simp add: st find_first)
      show "fst (invoke E actualArgs s) =
                call_optional E (impl (delegates s (item_calledWithFn inst))) actualArgs
            \<and> calls (delegates (snd (invoke E actualArgs s)) (item_calledWithFn inst)) =
                calls (delegates s (item_calledWithFn inst)) @ [actualArgs]"
        by (simp add: invoke_dispatch [OF w f] call_delegate_result call_delegate_calls)
    qed
    have lose: "\<not> p (arg_at actualArgs i) \<longrightarrow>
              invoke E actualArgs s =
                checkCalledWith E post actualArgs (fallbackMockImplementation s)
                  (s\<lparr>fn_calls := fn_calls s @ [actualArgs]\<rparr>)"
    proof
      assume "\<not> p (arg_at actualArgs i)"
      with m have "\<not> instance_matches E actualArgs inst"
        by simp
      from invoke_skip [OF w st np this]
      show "invoke E actualArgs s =
                checkCalledWith E post actualArgs (fallbackMockImplementation s)
                  (s\<lparr>fn_calls := fn_calls s @ [actualArgs]\<rparr>)" .
    qed
    from m win lose show "(instance_matches E actualArgs inst \<longleftrightarrow>
             p (arg_at actualArgs i)
             \<and> (\<forall>j<length (item_args inst).
                   j \<noteq> i \<longrightarrow> entry_matches E actualArgs (item_args inst ! j) j))
        \<and> (instance_matches E actualArgs inst \<longrightarrow>
              fst (invoke E actualArgs s) =
                call_optional E (impl (delegates s (item_calledWithFn inst))) actualArgs
            \<and> calls (delegates (snd (invoke E actualArgs s)) (item_calledWithFn inst)) =
                calls (delegates s (item_calledWithFn inst)) @ [actualArgs])
        \<and> (\<not> p (arg_at actualArgs i) \<longrightarrow>
              invoke E actualArgs s =
                checkCalledWith E post actualArgs (fallbackMockImplementation s)
                  (s\<lparr>fn_calls := fn_calls s @ [actualArgs]\<rparr>))"
      by blast
  qed
  have e: "heap E r = OtherObject (Some p) t
        \<and> \<not> (\<exists>u. t = String u \<and> prefix ''Expect'' u)
        \<and> (\<forall>c\<in>set ops'. \<not> registers E c) \<longrightarrow>
          (let s0 = run E ops (calledWithFn fallback k);
               d = next_ref s0;
               s1 = run E ops' (snd (calledWith E [Object r] s0))
           in fst (calledWith E [Object r] s0) = Inr d
            \<and> calledWithStack s1 =
                \<lparr>item_args = [Object r], item_calledWithFn = d\<rparr> # calledWithStack s0
            \<and> (p (arg_at actualArgs 0) \<longrightarrow>
                  fst (invoke E actualArgs s1) = call_optional E (impl (delegates s1 d)) actualArgs
                \<and> calls (delegates (snd (invoke E actualArgs s1)) d) =
                    calls (delegates s1 d) @ [actualArgs])
            \<and> (\<not> p (arg_at actualArgs 0) \<longrightarrow>
                  invoke E actualArgs s1 =
                    checkCalledWith E (calledWithStack s0) actualArgs fallback
                      (s1\<lparr>fn_calls := fn_calls s1 @ [actualArgs]\<rparr>)))"
  proof (intro impI)
    assume h: "heap E r = OtherObject (Some p) t
        \<and> \<not> (\<exists>u. t = String u \<and> prefix ''Expect'' u)
        \<and> (\<forall>c\<in>set ops'. \<not> registers E c)"
    let ?init = "run E ops (calledWithFn fallback k)"
    let ?d = "next_ref ?init"
    let ?b = "\<lparr>item_args = [Object r], item_calledWithFn = ?d\<rparr>"
    let ?last = "run E ops' (snd (calledWith E [Object r] ?init))"
    from h have hp: "heap E r = OtherObject (Some p) t" and idle: "\<forall>c\<in>set ops'. \<not> registers E c"
      by simp_all
    from h have "\<not> isBunBuiltInMatcher E (Object r)"
      by (simp add: isBunBuiltInMatcher_iff)
    then have ok: "validateCalledWithArgs E [Object r] = Inr ()"
      by (simp add: validate_ok_iff)
    have inv: "router_inv ?init"
      by (rule inv_reachable)
    have fb: "fallbackMockImplementation ?init = fallback"
      using run_const [of E ops "calledWithFn fallback k"] by (simp add: calledWithFn_def)
    have ret: "fst (calledWith E [Object r] ?init) = Inr ?d"
      by (rule calledWith_inv_fields [OF ok inv])
    from run_idle_frame [OF idle, of "snd (calledWith E [Object r] ?init)"]
    have st: "calledWithStack ?last = [] @ ?b # calledWithStack ?init"
      and w: "fn_impl ?last = Some Dispatcher"
      and fb': "fallbackMockImplementation ?last = fallback"
      by (simp_all add: calledWith_inv_fields [OF ok inv] fb)
    have np: "\<forall>b\<in>set []. \<not> instance_matches E actualArgs b"
      by simp
    have m: "instance_matches E actualArgs ?b \<longleftrightarrow> p (arg_at actualArgs 0)"
      using instance_matches_at [of 0 ?b r E p t actualArgs] hp by simp
    have win: "p (arg_at actualArgs 0) \<longrightarrow>
        fst (invoke E actualArgs ?last) = call_optional E (impl (delegates ?last ?d)) actualArgs
      \<and> calls (delegates (snd (invoke E actualArgs ?last)) ?d) =
          calls (delegates ?last ?d) @ [actualArgs]"
    proof
      assume "p (arg_at actualArgs 0)"
      with m have "find (instance_matches E actualArgs) (calledWithStack ?last) = Some ?b"
        by (simp add: st)
      from invoke_dispatch [OF w this]
      show "fst (invoke E actualArgs ?last) = call_optional E (impl (delegates ?last ?d)) actualArgs
        \<and> calls (delegates (snd (invoke E actualArgs ?last)) ?d) =
            calls (delegates ?last ?d) @ [actualArgs]"
        by (simp add: call_delegate_result call_delegate_calls)
    qed
    have lose: "\<not> p (arg_at actualArgs 0) \<longrightarrow>
        invoke E actualArgs ?last =
          checkCalledWith E (calledWithStack ?init) actualArgs fallback
            (?last\<lparr>fn_calls := fn_calls ?last @ [actualArgs]\<rparr>)"
    proof
      assume "\<not> p (arg_at actualArgs 0)"
      with m have "\<not> instance_matches E actualArgs ?b"
        by simp
      from invoke_skip [OF w st np this]
      show "invoke E actualArgs ?last =
          checkCalledWith E (calledWithStack ?init) actualArgs fallback
            (?last\<lparr>fn_calls := fn_calls ?last @ [actualArgs]\<rparr>)"
        by (simp add: fb')
    qed
    from ret st win lose
    show "let s0 = run E ops (calledWithFn fallback k);
               d = next_ref s0;
               s1 = run E ops' (snd (calledWith E [Object r] s0))
           in fst (calledWith E [Object r] s0) = Inr d
            \<and> calledWithStack s1 =
                \<lparr>item_args = [Object r], item_calledWithFn = d\<rparr> # calledWithStack s0
            \<and> (p (arg_at actualArgs 0) \<longrightarrow>
                  fst (invoke E actualArgs s1) = call_optional E (impl (delegates s1 d)) actualArgs
                \<and> calls (delegates (snd (invoke E actualArgs s1)) d) =
                    calls (delegates s1 d) @ [actualArgs])
            \<and> (\<not> p (arg_at actualArgs 0) \<longrightarrow>
                  invoke E actualArgs s1 =
                    checkCalledWith E (calledWithStack s0) actualArgs fallback
                      (s1\<lparr>fn_calls := fn_calls s1 @ [actualArgs]\<rparr>))"
      unfolding Let_def by simp
  qed
  from a b c d e show ?thesis
    by blast
qed

theorem foreign_asymmetricMatch_objects_pass_witness:
  "\<not> (\<exists>x\<in>set [Object 1]. \<exists>r t. x = Object r \<and> toStringTag (heap example_env r) = String t
         \<and> prefix ''Expect'' t)
   \<and> fst (calledWith example_env [Object 1] (calledWithFn None 10)) = Inr 11
   \<and> heap example_env 1 = OtherObject (Some (\<lambda>v. js_typeof v = ''string'')) Undefined
   \<and> entry_matches example_env [String ''a''] (Object 1) 0
   \<and> \<not> entry_matches example_env [Object 1] (Object 1) 0
   \<and> (\<exists>x\<in>set [Object 2]. \<exists>r t. x = Object r \<and> toStringTag (heap example_env r) = String t
         \<and> prefix ''Expect'' t)
   \<and> fst (calledWith example_env [Object 2] (calledWithFn None 10)) = Inl (Error unsupported_message)
   \<and> \<not> registers example_env (MockImplementation 11 (Some 7))
   \<and> fst (invoke example_env [String ''a'']
        (run example_env [MockImplementation 11 (Some 7)]
           (snd (calledWith example_env [Object 1] (run example_env [] (calledWithFn None 10))))))
       = Inr (Number 7)
   \<and> calls (delegates (snd (invoke example_env [String ''a'']
        (run example_env [MockImplementation 11 (Some 7)]
           (snd (calledWith example_env [Object 1] (run example_env [] (calledWithFn None 10))))))) 11)
       = [[String ''a'']]
   \<and> fst (invoke example_env [Number 3]
        (run example_env [MockImplementation 11 (Some 7)]
           (snd (calledWith example_env [Object 1] (run example_env [] (calledWithFn None 10))))))
       = Inr Undefined
   \<and> fst (invoke example_env [Object 1]
        (run example_env [MockImplementation 11 (Some 7)]
           (snd (calledWith example_env [Object 1] (run example_env [] (calledWithFn None 10))))))
       = Inr Undefined"
proof -
  let ?p = "\<lambda>v. js_typeof v = ''string''"
  let ?init = "run example_env [] (calledWithFn None 10)"
  let ?last = "run example_env [MockImplementation 11 (Some 7)]
                 (snd (calledWith example_env [Object 1] ?init))"
  have h1: "\<not> (\<exists>x\<in>set [Object 1]. \<exists>r t. x = Object r \<and> toStringTag (heap example_env r) = String t
         \<and> prefix ''Expect'' t)"
    by (simp add: example_env_def)
  have h2: "heap example_env 1 = OtherObject (Some ?p) Undefined"
    by (simp add: example_env_def)
  have h3: "\<exists>x\<in>set [Object 2]. \<exists>r t. x = Object r \<and> toStringTag (heap example_env r) = String t
         \<and> prefix ''Expect'' t"
    by (simp add: example_env_def)
  have h4: "\<not> (\<exists>u. Undefined = String u \<and> prefix ''Expect'' u)"
    by simp
  have h5: "\<forall>c\<in>set [MockImplementation 11 (Some 7)]. \<not> registers example_env c"
    by simp
  have n: "next_ref (calledWithFn None 10) = 11"
    by (simp add: calledWithFn_def)
  have n': "next_ref ?init = 11" and e: "calledWithStack ?init = []"
    by (simp_all add: run_def calledWithFn_def)
  have i: "impl (delegates ?last 11) = Some 7" and k: "calls (delegates ?last 11) = []"
    by (simp_all add: eval_defs)
  have f: "call_fun example_env 7 [String ''a''] = Inr (Number 7)"
    by (simp add: call_fun_def example_env_def)
  from foreign_asymmetricMatch_objects_pass
    [where E = example_env and args = "[Object 1]" and s = "calledWithFn None 10",
      THEN conjunct2, THEN conjunct1, THEN mp, OF h1]
  have a: "fst (calledWith example_env [Object 1] (calledWithFn None 10)) = Inr 11"
    unfolding n by (rule conjunct1)
  from foreign_asymmetricMatch_objects_pass
    [where E = example_env and r = 1 and p = ?p and t = Undefined and i = 0
      and actualArgs = "[String ''a'']",
      THEN conjunct2, THEN conjunct2, THEN conjunct1, THEN mp, OF h2]
  have b: "entry_matches example_env [String ''a''] (Object 1) 0"
    by (simp add: arg_at_def)
  from foreign_asymmetricMatch_objects_pass
    [where E = example_env and r = 1 and p = ?p and t = Undefined and i = 0
      and actualArgs = "[Object 1]",
      THEN conjunct2, THEN conjunct2, THEN conjunct1, THEN mp, OF h2]
  have c: "\<not> entry_matches example_env [Object 1] (Object 1) 0"
    by (simp add: arg_at_def)
  from foreign_asymmetricMatch_objects_pass
    [where E = example_env and args = "[Object 2]" and s = "calledWithFn None 10", THEN conjunct1] h3
  have d: "fst (calledWith example_env [Object 2] (calledWithFn None 10)) = Inl (Error unsupported_message)"
    by (rule iffD2)
  have h: "heap example_env 1 = OtherObject (Some ?p) Undefined
      \<and> \<not> (\<exists>u. Undefined = String u \<and> prefix ''Expect'' u)
      \<and> (\<forall>c\<in>set [MockImplementation 11 (Some 7)]. \<not> registers example_env c)"
    using h2 h4 h5 by (intro conjI)
  have yes: "?p (arg_at [String ''a''] 0)"
    by (simp add: arg_at_def)
  have no: "\<not> ?p (arg_at [Number 3] 0)" and no': "\<not> ?p (arg_at [Object 1] 0)"
    by (simp_all add: arg_at_def)
  from foreign_asymmetricMatch_objects_pass
    [where E = example_env and r = 1 and p = ?p and t = Undefined and i = 0
      and ops' = "[MockImplementation 11 (Some 7)]" and ops = "[]" and fallback = None and k = 10
      and actualArgs = "[String ''a'']",
      THEN conjunct2, THEN conjunct2, THEN conjunct2, THEN conjunct2, THEN mp, OF h,
      unfolded Let_def n' e,
      THEN conjunct2, THEN conjunct2, THEN conjunct1, THEN mp, OF yes]
  have "fst (invoke example_env [String ''a''] ?last) =
        call_optional example_env (impl (delegates ?last 11)) [String ''a'']
    \<and> calls (delegates (snd (invoke example_env [String ''a''] ?last)) 11) =
        calls (delegates ?last 11) @ [[String ''a'']]" .
  then have w: "fst (invoke example_env [String ''a''] ?last) = Inr (Number 7)
    \<and> calls (delegates (snd (invoke example_env [String ''a''] ?last)) 11) = [[String ''a'']]"
    by (simp only: i k f call_optional.simps append_Nil)
  from foreign_asymmetricMatch_objects_pass
    [where E = example_env and r = 1 and p = ?p and t = Undefined and i = 0
      and ops' = "[MockImplementation 11 (Some 7)]" and ops = "[]" and fallback = None and k = 10
      and actualArgs = "[Number 3]",
      THEN conjunct2, THEN conjunct2, THEN conjunct2, THEN conjunct2, THEN mp, OF h,
      unfolded Let_def n' e,
      THEN conjunct2, THEN conjunct2, THEN conjunct2, THEN mp, OF no]
  have "invoke example_env [Number 3] ?last =
        checkCalledWith example_env [] [Number 3] None
          (?last\<lparr>fn_calls := fn_calls ?last @ [[Number 3]]\<rparr>)" .
  then have x: "fst (invoke example_env [Number 3] ?last) = Inr Undefined"
    by (simp add: checkCalledWith_def)
  from foreign_asymmetricMatch_objects_pass
    [where E = example_env and r = 1 and p = ?p and t = Undefined and i = 0
      and ops' = "[MockImplementation 11 (Some 7)]" and ops = "[]" and fallback = None and k = 10
      and actualArgs = "[Object 1]",
      THEN conjunct2, THEN conjunct2, THEN conjunct2, THEN conjunct2, THEN mp, OF h,
      unfolded Let_def n' e,
      THEN conjunct2, THEN conjunct2, THEN conjunct2, THEN mp, OF no']
  have "invoke example_env [Object 1] ?last =
        checkCalledWith example_env [] [Object 1] None
          (?last\<lparr>fn_calls := fn_calls ?last @ [[Object 1]]\<rparr>)" .
  then have y: "fst (invoke example_env [Object 1] ?last) = Inr Undefined"
    by (simp add: checkCalledWith_def)
  have g: "\<not> registers example_env (MockImplementation 11 (Some 7))"
    by simp
  from h1 h2 h3 a b c d g w x y show ?thesis
    by (intro conjI) simp_all
qed

text \<open>
  C7: the scan reads of the actual arguments only the positions the pattern has: a
  binding whose pattern has at most as many entries as \<open>xs\<close> matches \<open>xs\<close> followed by
  any tail \<open>ys\<close> exactly when it matches \<open>xs\<close>. The delegate of the binding that wins is
  called with all the actual arguments, the tail included.
\<close>

theorem tail_ignored_by_scan_passed_to_delegate:
  assumes "length (item_args inst) \<le> length xs"
  shows "instance_matches E (xs @ ys) inst = instance_matches E xs inst
       \<and> (fn_impl s = Some Dispatcher
            \<and> calledWithStack s = pre @ inst # post
            \<and> (\<forall>b\<in>set pre. \<not> instance_matches E (xs @ ys) b)
            \<and> instance_matches E xs inst \<longrightarrow>
              fst (invoke E (xs @ ys) s) =
                call_optional E (impl (delegates s (item_calledWithFn inst))) (xs @ ys)
            \<and> calls (delegates (snd (invoke E (xs @ ys) s)) (item_calledWithFn inst)) =
                calls (delegates s (item_calledWithFn inst)) @ [xs @ ys])"
proof (intro conjI impI)
  show m: "instance_matches E (xs @ ys) inst = instance_matches E xs inst"
    using assms by (rule instance_matches_append)
  assume a: "fn_impl s = Some Dispatcher
            \<and> calledWithStack s = pre @ inst # post
            \<and> (\<forall>b\<in>set pre. \<not> instance_matches E (xs @ ys) b)
            \<and> instance_matches E xs inst"
  then have w: "fn_impl s = Some Dispatcher"
    by simp
  from a m have f: "find (instance_matches E (xs @ ys)) (calledWithStack s) = Some inst"
    by (simp add: find_first)
  show "fst (invoke E (xs @ ys) s) =
      call_optional E (impl (delegates s (item_calledWithFn inst))) (xs @ ys)"
    by (simp add: invoke_dispatch [OF w f] call_delegate_result)
  show "calls (delegates (snd (invoke E (xs @ ys) s)) (item_calledWithFn inst)) =
      calls (delegates s (item_calledWithFn inst)) @ [xs @ ys]"
    by (simp add: invoke_dispatch [OF w f] call_delegate_calls)
qed

theorem tail_ignored_by_scan_passed_to_delegate_witness:
  "length (item_args \<lparr>item_args = [Number 1], item_calledWithFn = 11\<rparr>) \<le> length [Number 1]
   \<and> fn_impl (run example_env [CalledWith [Number 1], MockImplementation 11 (Some 5)]
        (calledWithFn None 10)) = Some Dispatcher
   \<and> calledWithStack (run example_env [CalledWith [Number 1], MockImplementation 11 (Some 5)]
        (calledWithFn None 10)) = [] @ \<lparr>item_args = [Number 1], item_calledWithFn = 11\<rparr> # []
   \<and> instance_matches example_env [Number 1] \<lparr>item_args = [Number 1], item_calledWithFn = 11\<rparr>
   \<and> instance_matches example_env ([Number 1] @ [String ''more''])
        \<lparr>item_args = [Number 1], item_calledWithFn = 11\<rparr>
   \<and> fst (invoke example_env ([Number 1] @ [String ''more''])
        (run example_env [CalledWith [Number 1], MockImplementation 11 (Some 5)]
           (calledWithFn None 10))) = Inr (Number 5)
   \<and> calls (delegates (snd (invoke example_env ([Number 1] @ [String ''more''])
        (run example_env [CalledWith [Number 1], MockImplementation 11 (Some 5)]
           (calledWithFn None 10)))) 11) = [[Number 1, String ''more'']]"
proof -
  let ?s = "run example_env [CalledWith [Number 1], MockImplementation 11 (Some 5)] (calledWithFn None 10)"
  let ?b = "\<lparr>item_args = [Number 1], item_calledWithFn = 11\<rparr>"
  have l: "length (item_args ?b) \<le> length [Number 1]"
    by simp
  have w: "fn_impl ?s = Some Dispatcher"
    by (simp add: eval_defs)
  have st: "calledWithStack ?s = [] @ ?b # []"
    by (simp add: eval_defs)
  have m: "instance_matches example_env [Number 1] ?b"
    by (simp add: eval_defs)
  have i: "impl (delegates ?s 11) = Some 5" and c: "calls (delegates ?s 11) = []"
    by (simp_all add: eval_defs)
  have r: "call_fun example_env 5 [Number 1, String ''more''] = Inr (Number 5)"
    by (simp add: call_fun_def example_env_def)
  note t = tail_ignored_by_scan_passed_to_delegate
    [OF l, of example_env "[String ''more'']" ?s "[]" "[]"]
  from t m have m': "instance_matches example_env ([Number 1] @ [String ''more'']) ?b"
    by blast
  from t w st m
  have "fst (invoke example_env ([Number 1] @ [String ''more'']) ?s) =
          call_optional example_env (impl (delegates ?s (item_calledWithFn ?b))) ([Number 1] @ [String ''more''])
      \<and> calls (delegates (snd (invoke example_env ([Number 1] @ [String ''more'']) ?s)) (item_calledWithFn ?b)) =
          calls (delegates ?s (item_calledWithFn ?b)) @ [[Number 1] @ [String ''more'']]"
    by simp
  then have "fst (invoke example_env ([Number 1] @ [String ''more'']) ?s) = Inr (Number 5)
      \<and> calls (delegates (snd (invoke example_env ([Number 1] @ [String ''more'']) ?s)) 11) =
          [[Number 1, String ''more'']]"
    by (simp add: i c r)
  with l w st m m' show ?thesis
    by blast
qed

text \<open>
  C8: the delegates that the registrations of a run return are pairwise distinct, also
  for equal patterns, and none is the router's own mock; they are the delegates of the
  stack, newest first. The next registration returns a delegate that is none of them, new
  (it has the fallback for implementation and no calls). Giving a delegate an
  implementation changes the result of exactly the calls whose first matching binding is
  its own: any other call returns what it did, such a call returns what the new
  implementation does.
\<close>

theorem delegates_fresh_and_independent:
  "distinct (returned E (calledWithFn fallback r) ops)
   \<and> r \<notin> set (returned E (calledWithFn fallback r) ops)
   \<and> map item_calledWithFn (calledWithStack (run E ops (calledWithFn fallback r))) =
       rev (returned E (calledWithFn fallback r) ops)
   \<and> (validateCalledWithArgs E args = Inr () \<longrightarrow>
        fst (calledWith E args (run E ops (calledWithFn fallback r))) =
          Inr (next_ref (run E ops (calledWithFn fallback r)))
      \<and> next_ref (run E ops (calledWithFn fallback r)) \<noteq> r
      \<and> next_ref (run E ops (calledWithFn fallback r)) \<notin> set (returned E (calledWithFn fallback r) ops)
      \<and> delegates (snd (calledWith E args (run E ops (calledWithFn fallback r))))
          (next_ref (run E ops (calledWithFn fallback r))) = \<lparr>impl = fallback, calls = []\<rparr>)
   \<and> ((\<forall>b. find (instance_matches E actualArgs) (calledWithStack s) = Some b
            \<longrightarrow> item_calledWithFn b \<noteq> d) \<longrightarrow>
        fst (invoke E actualArgs (mockImplementation d f s)) = fst (invoke E actualArgs s))
   \<and> (fn_impl s = Some Dispatcher
        \<and> find (instance_matches E actualArgs) (calledWithStack s) = Some b \<longrightarrow>
        fst (invoke E actualArgs (mockImplementation (item_calledWithFn b) f s)) =
          call_optional E f actualArgs)"
proof -
  let ?init = "calledWithFn fallback r"
  let ?s = "run E ops ?init"
  have inv: "router_inv ?s"
    by (rule inv_reachable)
  have fb: "fallbackMockImplementation ?s = fallback" and fn: "fn ?s = r"
    using run_const [of E ops ?init] by (simp_all add: calledWithFn_def)
  have st: "map item_calledWithFn (calledWithStack ?s) = rev (returned E ?init ops)"
    using stack_returned [OF inv_init, of E ops fallback r] by (simp add: calledWithFn_def)
  from inv have "distinct (map item_calledWithFn (calledWithStack ?s))"
    by (simp add: router_inv_def)
  then have a: "distinct (returned E ?init ops)"
    by (simp add: st)
  from inv have lt: "\<forall>x\<in>set (map item_calledWithFn (calledWithStack ?s)). r < x \<and> x < next_ref ?s"
    by (simp add: router_inv_def fn)
  then have b: "r \<notin> set (returned E ?init ops)"
    by (auto simp add: st)
  from lt have c1: "next_ref ?s \<notin> set (returned E ?init ops)"
    by (auto simp add: st)
  from inv have c2: "next_ref ?s \<noteq> r"
    by (simp add: router_inv_def fn)
  have c: "validateCalledWithArgs E args = Inr () \<longrightarrow>
        fst (calledWith E args ?s) = Inr (next_ref ?s)
      \<and> next_ref ?s \<noteq> r
      \<and> next_ref ?s \<notin> set (returned E ?init ops)
      \<and> delegates (snd (calledWith E args ?s)) (next_ref ?s) = \<lparr>impl = fallback, calls = []\<rparr>"
    using c1 c2 by (simp add: calledWith_inv_fields [OF _ inv] fb)
  have d: "(\<forall>b. find (instance_matches E actualArgs) (calledWithStack s) = Some b
            \<longrightarrow> item_calledWithFn b \<noteq> d) \<longrightarrow>
        fst (invoke E actualArgs (mockImplementation d f s)) = fst (invoke E actualArgs s)"
    by (simp add: invoke_mockImplementation_other)
  have e: "fn_impl s = Some Dispatcher
        \<and> find (instance_matches E actualArgs) (calledWithStack s) = Some b \<longrightarrow>
        fst (invoke E actualArgs (mockImplementation (item_calledWithFn b) f s)) =
          call_optional E f actualArgs"
    by (simp add: invoke_mockImplementation_same)
  from a b st c d e show ?thesis
    by blast
qed

theorem delegates_fresh_and_independent_witness:
  "returned example_env (calledWithFn None 10) [CalledWith [Number 1], CalledWith [Number 1]] = [11, 12]
   \<and> validateCalledWithArgs example_env [Number 1] = Inr ()
   \<and> fst (calledWith example_env [Number 1]
        (run example_env [CalledWith [Number 1], CalledWith [Number 1]] (calledWithFn None 10))) = Inr 13
   \<and> fst (invoke example_env [Number 1]
        (mockImplementation 11 (Some 3)
           (run example_env [CalledWith [Number 1], CalledWith [Number 1]] (calledWithFn None 10))))
       = Inr Undefined
   \<and> fn_impl (run example_env [CalledWith [Number 1], CalledWith [Number 1]] (calledWithFn None 10))
       = Some Dispatcher
   \<and> find (instance_matches example_env [Number 1])
        (calledWithStack (run example_env [CalledWith [Number 1], CalledWith [Number 1]]
           (calledWithFn None 10)))
       = Some \<lparr>item_args = [Number 1], item_calledWithFn = 12\<rparr>
   \<and> fst (invoke example_env [Number 1]
        (mockImplementation 12 (Some 4)
           (run example_env [CalledWith [Number 1], CalledWith [Number 1]] (calledWithFn None 10))))
       = Inr (Number 4)"
proof -
  let ?ops = "[CalledWith [Number 1], CalledWith [Number 1]]"
  let ?s = "run example_env ?ops (calledWithFn None 10)"
  let ?b = "\<lparr>item_args = [Number 1], item_calledWithFn = 12\<rparr>"
  have ret: "returned example_env (calledWithFn None 10) ?ops = [11, 12]"
    by (simp add: eval_defs)
  have v: "validateCalledWithArgs example_env [Number 1] = Inr ()"
    by (simp add: eval_defs)
  have n: "next_ref ?s = 13"
    by (simp add: eval_defs)
  have w: "fn_impl ?s = Some Dispatcher"
    by (simp add: eval_defs)
  have f: "find (instance_matches example_env [Number 1]) (calledWithStack ?s) = Some ?b"
    by (simp add: eval_defs)
  then have o: "\<forall>b. find (instance_matches example_env [Number 1]) (calledWithStack ?s) = Some b
          \<longrightarrow> item_calledWithFn b \<noteq> 11"
    by simp
  have u: "fst (invoke example_env [Number 1] ?s) = Inr Undefined"
    by (simp add: eval_defs)
  have c: "call_fun example_env 4 [Number 1] = Inr (Number 4)"
    by (simp add: call_fun_def example_env_def)
  note t = delegates_fresh_and_independent
    [where E = example_env and fallback = None and r = 10 and ops = ?ops and args = "[Number 1]"
       and actualArgs = "[Number 1]" and s = ?s and d = 11 and b = ?b]
  from t [where f = "Some 3"] v have a: "fst (calledWith example_env [Number 1] ?s) = Inr 13"
    unfolding n by blast
  from t [where f = "Some 3"] o
  have "fst (invoke example_env [Number 1] (mockImplementation 11 (Some 3) ?s)) =
      fst (invoke example_env [Number 1] ?s)"
    by blast
  then have b: "fst (invoke example_env [Number 1] (mockImplementation 11 (Some 3) ?s)) = Inr Undefined"
    by (simp only: u)
  from t [where f = "Some 4"] w f
  have "fst (invoke example_env [Number 1] (mockImplementation (item_calledWithFn ?b) (Some 4) ?s)) =
      call_optional example_env (Some 4) [Number 1]"
    by blast
  then have d: "fst (invoke example_env [Number 1] (mockImplementation 12 (Some 4) ?s)) = Inr (Number 4)"
    by (simp add: c)
  from ret v a b w f d show ?thesis
    by blast
qed

text \<open>
  C9: the empty pattern passes validation and matches every call. Once it is registered,
  and until another pattern is, every call of the router goes to its delegate whatever
  the arguments are; the bindings registered before stay on the stack behind it and their
  delegates are not called.
\<close>

theorem empty_pattern_matches_every_call:
  assumes s: "s = run E ops (calledWithFn fallback r)"
    and s': "s' = run E ops' (snd (calledWith E [] s))"
    and idle: "\<forall>c\<in>set ops'. \<not> registers E c"
  shows "fst (calledWith E [] s) = Inr (next_ref s)
       \<and> instance_matches E actualArgs \<lparr>item_args = [], item_calledWithFn = next_ref s\<rparr>
       \<and> calledWithStack s' = \<lparr>item_args = [], item_calledWithFn = next_ref s\<rparr> # calledWithStack s
       \<and> fst (invoke E actualArgs s') = call_optional E (impl (delegates s' (next_ref s))) actualArgs
       \<and> calls (delegates (snd (invoke E actualArgs s')) (next_ref s)) =
           calls (delegates s' (next_ref s)) @ [actualArgs]
       \<and> (\<forall>b\<in>set (calledWithStack s).
             calls (delegates (snd (invoke E actualArgs s')) (item_calledWithFn b)) =
               calls (delegates s' (item_calledWithFn b)))"
proof -
  let ?b = "\<lparr>item_args = [], item_calledWithFn = next_ref s\<rparr>"
  have inv: "router_inv s"
    unfolding s by (rule inv_reachable)
  have ok: "validateCalledWithArgs E [] = Inr ()"
    by (simp add: validate_ok_iff)
  have ret: "fst (calledWith E [] s) = Inr (next_ref s)"
    by (rule calledWith_inv_fields [OF ok inv])
  have m: "instance_matches E actualArgs ?b"
    by (simp add: instance_matches_def every_def)
  from run_idle_frame [OF idle, of "snd (calledWith E [] s)"]
  have st: "calledWithStack s' = ?b # calledWithStack s" and w: "fn_impl s' = Some Dispatcher"
    by (simp_all add: s' calledWith_inv_fields [OF ok inv])
  from m have f: "find (instance_matches E actualArgs) (calledWithStack s') = Some ?b"
    by (simp add: st)
  have res: "fst (invoke E actualArgs s') = call_optional E (impl (delegates s' (next_ref s))) actualArgs"
    by (simp add: invoke_dispatch [OF w f] call_delegate_result)
  have own: "calls (delegates (snd (invoke E actualArgs s')) (next_ref s)) =
      calls (delegates s' (next_ref s)) @ [actualArgs]"
    by (simp add: invoke_dispatch [OF w f] call_delegate_calls)
  from inv have "\<forall>b\<in>set (calledWithStack s). item_calledWithFn b \<noteq> next_ref s"
    by (auto simp add: router_inv_def)
  then have others: "\<forall>b\<in>set (calledWithStack s).
      calls (delegates (snd (invoke E actualArgs s')) (item_calledWithFn b)) =
        calls (delegates s' (item_calledWithFn b))"
    by (simp add: invoke_dispatch [OF w f] call_delegate_calls)
  from ret m st res own others show ?thesis
    by blast
qed

theorem empty_pattern_matches_every_call_witness:
  "fst (invoke example_env [String ''a'', Null]
     (run example_env [MockImplementation 12 (Some 9)]
        (snd (calledWith example_env []
           (run example_env [CalledWith [Number 1], MockImplementation 11 (Some 3)] (calledWithFn None 10))))))
     = Inr (Number 9)
   \<and> fst (invoke example_env [Number 1]
     (run example_env [MockImplementation 12 (Some 9)]
        (snd (calledWith example_env []
           (run example_env [CalledWith [Number 1], MockImplementation 11 (Some 3)] (calledWithFn None 10))))))
     = Inr (Number 9)
   \<and> \<not> registers example_env (MockImplementation 12 (Some 9))"
proof -
  let ?s = "run example_env [CalledWith [Number 1], MockImplementation 11 (Some 3)] (calledWithFn None 10)"
  let ?t = "run example_env [MockImplementation 12 (Some 9)] (snd (calledWith example_env [] ?s))"
  have idle: "\<forall>c\<in>set [MockImplementation 12 (Some 9)]. \<not> registers example_env c"
    by simp
  have n: "next_ref ?s = 12"
    by (simp add: eval_defs)
  have i: "impl (delegates ?t 12) = Some 9"
    by (simp add: eval_defs)
  have c: "call_optional example_env (Some 9) [String ''a'', Null] = Inr (Number 9)"
      "call_optional example_env (Some 9) [Number 1] = Inr (Number 9)"
    by (simp_all add: call_fun_def example_env_def)
  have h: "?s = run example_env [CalledWith [Number 1], MockImplementation 11 (Some 3)] (calledWithFn None 10)"
    and h': "?t = run example_env [MockImplementation 12 (Some 9)] (snd (calledWith example_env [] ?s))"
    by simp_all
  note t = empty_pattern_matches_every_call [OF h h' idle]
  from t [where actualArgs = "[String ''a'', Null]"]
  have "fst (invoke example_env [String ''a'', Null] ?t) =
      call_optional example_env (impl (delegates ?t (next_ref ?s))) [String ''a'', Null]"
    by blast
  then have a: "fst (invoke example_env [String ''a'', Null] ?t) = Inr (Number 9)"
    by (simp only: n i c)
  from t [where actualArgs = "[Number 1]"]
  have "fst (invoke example_env [Number 1] ?t) =
      call_optional example_env (impl (delegates ?t (next_ref ?s))) [Number 1]"
    by blast
  then have b: "fst (invoke example_env [Number 1] ?t) = Inr (Number 9)"
    by (simp only: n i c)
  from a b show ?thesis
    by simp
qed

text \<open>
  C10, as the code has it. A call of the router leaves the stack, the implementation of
  \<open>fn\<close> and the implementation of every delegate as they were; it records the call on
  \<open>fn\<close> and on the delegate of the first matching binding, if the dispatcher is
  installed and there is one, and on no other delegate. A registration that succeeds puts
  its binding in front of the stack there was, so the bindings before it keep pattern and
  delegate; it records no call and touches no delegate but the new one it makes; and it
  makes the dispatcher the implementation of \<open>fn\<close>, which changes that implementation
  exactly when no registration has succeeded before. A registration that is rejected
  changes nothing.
\<close>

theorem invoke_and_calledWith_frame:
  assumes s: "s = run E ops (calledWithFn fallback r)"
  shows "snd (invoke E actualArgs s) =
           s\<lparr>fn_calls := fn_calls s @ [actualArgs],
             delegates := delegates (snd (invoke E actualArgs s))\<rparr>
       \<and> calledWithStack (snd (invoke E actualArgs s)) = calledWithStack s
       \<and> fn_impl (snd (invoke E actualArgs s)) = fn_impl s
       \<and> (\<forall>d. delegates (snd (invoke E actualArgs s)) d = delegates s d
             \<or> (fn_impl s = Some Dispatcher
                \<and> (\<exists>b. find (instance_matches E actualArgs) (calledWithStack s) = Some b
                      \<and> item_calledWithFn b = d)
                \<and> delegates (snd (invoke E actualArgs s)) d =
                    (delegates s d)\<lparr>calls := calls (delegates s d) @ [actualArgs]\<rparr>))
       \<and> (validateCalledWithArgs E args = Inr () \<longrightarrow>
            snd (calledWith E args s) =
              s\<lparr>fn_impl := Some Dispatcher, fn_installs := 1,
                calledWithStack :=
                  \<lparr>item_args = args, item_calledWithFn = next_ref s\<rparr> # calledWithStack s,
                delegates :=
                  (delegates s)(next_ref s := \<lparr>impl = fallbackMockImplementation s, calls = []\<rparr>),
                next_ref := Suc (next_ref s)\<rparr>
          \<and> (\<forall>b\<in>set (calledWithStack s).
                delegates (snd (calledWith E args s)) (item_calledWithFn b) =
                  delegates s (item_calledWithFn b))
          \<and> fn_calls (snd (calledWith E args s)) = fn_calls s
          \<and> (fn_impl (snd (calledWith E args s)) = fn_impl s \<longleftrightarrow> (\<exists>c\<in>set ops. registers E c)))
       \<and> (validateCalledWithArgs E args \<noteq> Inr () \<longrightarrow> snd (calledWith E args s) = s)"
proof -
  have inv: "router_inv s"
    unfolding s by (rule inv_reachable)
  have w: "fn_impl s = Some Dispatcher \<longleftrightarrow> (\<exists>c\<in>set ops. registers E c)"
    unfolding s by (rule run_installed_iff)
  have a: "snd (invoke E actualArgs s) =
           s\<lparr>fn_calls := fn_calls s @ [actualArgs],
             delegates := delegates (snd (invoke E actualArgs s))\<rparr>"
    by (rule invoke_state)
  have a': "calledWithStack (snd (invoke E actualArgs s)) = calledWithStack s
       \<and> fn_impl (snd (invoke E actualArgs s)) = fn_impl s"
    by (simp add: invoke_frame)
  have b: "\<forall>d. delegates (snd (invoke E actualArgs s)) d = delegates s d
             \<or> (fn_impl s = Some Dispatcher
                \<and> (\<exists>b. find (instance_matches E actualArgs) (calledWithStack s) = Some b
                      \<and> item_calledWithFn b = d)
                \<and> delegates (snd (invoke E actualArgs s)) d =
                    (delegates s d)\<lparr>calls := calls (delegates s d) @ [actualArgs]\<rparr>)"
    using invoke_delegates [of E actualArgs s] by blast
  have c: "validateCalledWithArgs E args = Inr () \<longrightarrow>
            snd (calledWith E args s) =
              s\<lparr>fn_impl := Some Dispatcher, fn_installs := 1,
                calledWithStack :=
                  \<lparr>item_args = args, item_calledWithFn = next_ref s\<rparr> # calledWithStack s,
                delegates :=
                  (delegates s)(next_ref s := \<lparr>impl = fallbackMockImplementation s, calls = []\<rparr>),
                next_ref := Suc (next_ref s)\<rparr>
          \<and> (\<forall>b\<in>set (calledWithStack s).
                delegates (snd (calledWith E args s)) (item_calledWithFn b) =
                  delegates s (item_calledWithFn b))
          \<and> fn_calls (snd (calledWith E args s)) = fn_calls s
          \<and> (fn_impl (snd (calledWith E args s)) = fn_impl s \<longleftrightarrow> (\<exists>c\<in>set ops. registers E c))"
  proof
    assume ok: "validateCalledWithArgs E args = Inr ()"
    from inv have old: "\<forall>b\<in>set (calledWithStack s). item_calledWithFn b \<noteq> next_ref s"
      by (auto simp add: router_inv_def)
    have sym: "fn_impl s = Some Dispatcher \<longleftrightarrow> Some Dispatcher = fn_impl s"
      by auto
    have "snd (calledWith E args s) =
              s\<lparr>fn_impl := Some Dispatcher, fn_installs := 1,
                calledWithStack :=
                  \<lparr>item_args = args, item_calledWithFn = next_ref s\<rparr> # calledWithStack s,
                delegates :=
                  (delegates s)(next_ref s := \<lparr>impl = fallbackMockImplementation s, calls = []\<rparr>),
                next_ref := Suc (next_ref s)\<rparr>"
      by (rule calledWith_inv_state [OF ok inv])
    moreover have "\<forall>b\<in>set (calledWithStack s).
                delegates (snd (calledWith E args s)) (item_calledWithFn b) =
                  delegates s (item_calledWithFn b)"
      using old by (simp add: calledWith_inv_fields [OF ok inv])
    moreover have "fn_calls (snd (calledWith E args s)) = fn_calls s"
      by (simp add: calledWith_inv_fields [OF ok inv])
    moreover have "fn_impl (snd (calledWith E args s)) = fn_impl s \<longleftrightarrow> (\<exists>c\<in>set ops. registers E c)"
      using w sym by (simp add: calledWith_inv_fields [OF ok inv])
    ultimately show "snd (calledWith E args s) =
              s\<lparr>fn_impl := Some Dispatcher, fn_installs := 1,
                calledWithStack :=
                  \<lparr>item_args = args, item_calledWithFn = next_ref s\<rparr> # calledWithStack s,
                delegates :=
                  (delegates s)(next_ref s := \<lparr>impl = fallbackMockImplementation s, calls = []\<rparr>),
                next_ref := Suc (next_ref s)\<rparr>
          \<and> (\<forall>b\<in>set (calledWithStack s).
                delegates (snd (calledWith E args s)) (item_calledWithFn b) =
                  delegates s (item_calledWithFn b))
          \<and> fn_calls (snd (calledWith E args s)) = fn_calls s
          \<and> (fn_impl (snd (calledWith E args s)) = fn_impl s \<longleftrightarrow> (\<exists>c\<in>set ops. registers E c))"
      by blast
  qed
  have d: "validateCalledWithArgs E args \<noteq> Inr () \<longrightarrow> snd (calledWith E args s) = s"
    by (simp add: calledWith_rejected)
  from a a' b c d show ?thesis
    by blast
qed

theorem invoke_and_calledWith_frame_witness:
  "validateCalledWithArgs example_env [Number 2] = Inr ()
   \<and> calledWithStack (snd (invoke example_env [Number 1]
        (run example_env [CalledWith [Number 1]] (calledWithFn None 10)))) =
       [\<lparr>item_args = [Number 1], item_calledWithFn = 11\<rparr>]
   \<and> calledWithStack (snd (calledWith example_env [Number 2]
        (run example_env [CalledWith [Number 1]] (calledWithFn None 10)))) =
       [\<lparr>item_args = [Number 2], item_calledWithFn = 12\<rparr>,
        \<lparr>item_args = [Number 1], item_calledWithFn = 11\<rparr>]
   \<and> (\<exists>c\<in>set [CalledWith [Number 1]]. registers example_env c)
   \<and> fn_impl (snd (calledWith example_env [Number 2]
        (run example_env [CalledWith [Number 1]] (calledWithFn None 10)))) =
       fn_impl (run example_env [CalledWith [Number 1]] (calledWithFn None 10))
   \<and> validateCalledWithArgs example_env [Object 2] \<noteq> Inr ()
   \<and> snd (calledWith example_env [Object 2]
        (run example_env [CalledWith [Number 1]] (calledWithFn None 10))) =
       run example_env [CalledWith [Number 1]] (calledWithFn None 10)"
proof -
  let ?s = "run example_env [CalledWith [Number 1]] (calledWithFn None 10)"
  have h: "?s = run example_env [CalledWith [Number 1]] (calledWithFn None 10)"
    by simp
  have v: "validateCalledWithArgs example_env [Number 2] = Inr ()"
    by (simp add: eval_defs)
  have v': "validateCalledWithArgs example_env [Object 2] \<noteq> Inr ()"
    by (simp add: eval_defs)
  have y: "\<exists>c\<in>set [CalledWith [Number 1]]. registers example_env c"
    by (simp add: eval_defs)
  have st: "calledWithStack ?s = [\<lparr>item_args = [Number 1], item_calledWithFn = 11\<rparr>]"
    and n: "next_ref ?s = 12"
    by (simp_all add: eval_defs)
  note t = invoke_and_calledWith_frame [OF h]
  from t [where actualArgs = "[Number 1]" and args = "[Number 2]"]
  have a: "calledWithStack (snd (invoke example_env [Number 1] ?s)) =
      [\<lparr>item_args = [Number 1], item_calledWithFn = 11\<rparr>]"
    unfolding st by blast
  from t [where actualArgs = "[Number 1]" and args = "[Number 2]"] v
  have "snd (calledWith example_env [Number 2] ?s) =
      ?s\<lparr>fn_impl := Some Dispatcher, fn_installs := 1,
        calledWithStack := \<lparr>item_args = [Number 2], item_calledWithFn = next_ref ?s\<rparr> # calledWithStack ?s,
        delegates := (delegates ?s)(next_ref ?s := \<lparr>impl = fallbackMockImplementation ?s, calls = []\<rparr>),
        next_ref := Suc (next_ref ?s)\<rparr>"
    by blast
  then have "calledWithStack (snd (calledWith example_env [Number 2] ?s)) =
      \<lparr>item_args = [Number 2], item_calledWithFn = next_ref ?s\<rparr> # calledWithStack ?s"
    by simp
  then have b: "calledWithStack (snd (calledWith example_env [Number 2] ?s)) =
      [\<lparr>item_args = [Number 2], item_calledWithFn = 12\<rparr>,
       \<lparr>item_args = [Number 1], item_calledWithFn = 11\<rparr>]"
    by (simp only: st n)
  from t [where actualArgs = "[Number 1]" and args = "[Number 2]"] v y
  have c: "fn_impl (snd (calledWith example_env [Number 2] ?s)) = fn_impl ?s"
    by blast
  from t [where actualArgs = "[Number 1]" and args = "[Object 2]"] v'
  have d: "snd (calledWith example_env [Object 2] ?s) = ?s"
    by blast
  from v a b y c v' d show ?thesis
    by blast
qed

text \<open>
  C10 as it is stated, with the stack's front and the call histories the only state that
  changes, fails at the first registration on a router made without a fallback: the
  implementation of \<open>fn\<close>, absent before, is the dispatcher afterwards, while the stack
  has the new binding and no call is recorded.
\<close>

theorem first_calledWith_replaces_fn_implementation:
  "fn_impl (calledWithFn None 10) = None
   \<and> fn_impl (snd (calledWith example_env [Number 1] (calledWithFn None 10))) = Some Dispatcher
   \<and> calledWithStack (snd (calledWith example_env [Number 1] (calledWithFn None 10))) =
       [\<lparr>item_args = [Number 1], item_calledWithFn = 11\<rparr>]
   \<and> fn_calls (snd (calledWith example_env [Number 1] (calledWithFn None 10))) =
       fn_calls (calledWithFn None 10)"
  by (simp add: eval_defs)

end
